theory Spec2Isabelle
  imports Complex_Main "HOL-Library.Sublist" "HOL-Library.Log_Nat"
begin

section \<open>JavaScript values used by the caption pipeline\<close>

text \<open>
  A JavaScript string is a sequence of UTF-16 code units. \<open>split\<close>, \<open>trim\<close>, \<open>join\<close> and
  a regular expression without the \<open>u\<close> flag all work on code units, so the model is a list
  of code units. ASCII literals of the source are written through \<open>ascii\<close>.
\<close>

type_synonym jsstring = "nat list"

definition ascii :: "string \<Rightarrow> jsstring" where
  "ascii s = map of_char s"

text \<open>
  A numeric property of a JSON object is either absent (reading it gives \<open>undefined\<close>) or a
  number. A number is an IEEE 754 binary64 value: \<open>NaN\<close>, an infinity, or a finite value
  \<open>Num r\<close> with \<open>r\<close> the rational it denotes. The two zeros are one value \<open>Num 0\<close>: the
  program never divides by a zero and never prints one, so their sign is not observable.
\<close>

datatype jsnum = Undef | NaN | NInf | PInf | Num rat

subsection \<open>Rounding to binary64\<close>

text \<open>Round to the nearest integer, ties to the even one.\<close>

definition round_even :: "rat \<Rightarrow> int" where
  "round_even q =
     (let f = \<lfloor>q\<rfloor>; r = q - of_int f
      in if r < 1 / 2 then f else if 1 / 2 < r then f + 1 else if even f then f else f + 1)"

text \<open>The binary exponent of a positive rational: \<open>2 powi (ilog2 x) \<le> x < 2 powi (ilog2 x + 1)\<close>.\<close>

definition ilog2 :: "rat \<Rightarrow> int" where
  "ilog2 x =
     (case quotient_of x of
        (p, q) \<Rightarrow> let d = bitlen p - bitlen q in if 2 powi d \<le> x then d else d - 1)"

text \<open>
  A positive rational rounded to 53 significant bits, the unit in the last place being
  \<open>2 powi e\<close> with \<open>e\<close> at least \<open>-1074\<close>, the exponent of the subnormal numbers.
\<close>

definition fl_pos :: "rat \<Rightarrow> rat" where
  "fl_pos x =
     (let e = max (ilog2 x - 52) (- 1074)
      in of_int (round_even (x / 2 powi e)) * 2 powi e)"

text \<open>
  The binary64 result of an operation whose exact result is \<open>x\<close>: round to nearest, ties to
  even, and an infinity when the rounded magnitude reaches \<open>2 powi 1024\<close>.
\<close>

definition fl :: "rat \<Rightarrow> jsnum" where
  "fl x =
     (if x = 0 then Num 0
      else let r = fl_pos \<bar>x\<bar>
           in if 2 powi 1024 \<le> r then (if 0 < x then PInf else NInf)
              else Num (if 0 < x then r else - r))"

text \<open>The rationals that are binary64 numbers.\<close>

definition is_double :: "rat \<Rightarrow> bool" where
  "is_double r \<longleftrightarrow> fl r = Num r"

subsection \<open>Operators\<close>

text \<open>\<open>ToBoolean\<close>: \<open>undefined\<close>, \<open>NaN\<close> and \<open>0\<close> are falsy.\<close>

fun truthy :: "jsnum \<Rightarrow> bool" where
  "truthy Undef = False"
| "truthy NaN = False"
| "truthy NInf = True"
| "truthy PInf = True"
| "truthy (Num r) = (r \<noteq> 0)"

text \<open>\<open>a || b\<close> on numeric operands.\<close>

definition js_or :: "jsnum \<Rightarrow> jsnum \<Rightarrow> jsnum" where
  "js_or a b = (if truthy a then a else b)"

text \<open>
  Arithmetic applies \<open>ToNumber\<close> first, which turns \<open>undefined\<close> into \<open>NaN\<close>; \<open>NaN\<close>
  is absorbing, and every finite result is rounded.
\<close>

fun js_add :: "jsnum \<Rightarrow> jsnum \<Rightarrow> jsnum" where
  "js_add (Num a) (Num b) = fl (a + b)"
| "js_add PInf NInf = NaN"
| "js_add NInf PInf = NaN"
| "js_add PInf (Num b) = PInf"
| "js_add PInf PInf = PInf"
| "js_add (Num a) PInf = PInf"
| "js_add NInf (Num b) = NInf"
| "js_add NInf NInf = NInf"
| "js_add (Num a) NInf = NInf"
| "js_add _ _ = NaN"

fun js_neg :: "jsnum \<Rightarrow> jsnum" where
  "js_neg (Num a) = Num (- a)"
| "js_neg PInf = NInf"
| "js_neg NInf = PInf"
| "js_neg _ = NaN"

text \<open>\<open>a - b\<close> is \<open>a + (-b)\<close> in IEEE arithmetic.\<close>

definition js_sub :: "jsnum \<Rightarrow> jsnum \<Rightarrow> jsnum" where
  "js_sub a b = js_add a (js_neg b)"

text \<open>The sign of an operand: \<open>-1\<close>, \<open>0\<close> or \<open>1\<close>, and none for \<open>NaN\<close>.\<close>

fun js_sign :: "jsnum \<Rightarrow> int option" where
  "js_sign (Num a) = Some (if a = 0 then 0 else if 0 < a then 1 else - 1)"
| "js_sign PInf = Some 1"
| "js_sign NInf = Some (- 1)"
| "js_sign _ = None"

text \<open>An infinite product or quotient: its sign, or \<open>NaN\<close> for zero times infinity.\<close>

definition signed_inf :: "int option \<Rightarrow> int option \<Rightarrow> jsnum" where
  "signed_inf sa sb =
     (case (sa, sb) of
        (Some x, Some y) \<Rightarrow> if x = 0 \<or> y = 0 then NaN else if x = y then PInf else NInf
      | _ \<Rightarrow> NaN)"

fun js_mul :: "jsnum \<Rightarrow> jsnum \<Rightarrow> jsnum" where
  "js_mul (Num a) (Num b) = fl (a * b)"
| "js_mul a b = signed_inf (js_sign a) (js_sign b)"

text \<open>
  Division. A finite number over an infinity is zero, two infinities give \<open>NaN\<close>. A
  zero divisor counts as positive zero; every divisor in the modelled code is the
  literal \<open>1000\<close> or the length of a non-empty array.
\<close>

fun js_div :: "jsnum \<Rightarrow> jsnum \<Rightarrow> jsnum" where
  "js_div (Num a) (Num b) =
     (if b = 0 then (if a = 0 then NaN else if 0 < a then PInf else NInf)
      else fl (a / b))"
| "js_div (Num a) PInf = Num 0"
| "js_div (Num a) NInf = Num 0"
| "js_div PInf (Num b) = (if 0 \<le> b then PInf else NInf)"
| "js_div NInf (Num b) = (if 0 \<le> b then NInf else PInf)"
| "js_div _ _ = NaN"

text \<open>
  Relational comparison \<open>a <= b\<close> and \<open>a >= b\<close>: false as soon as one operand is
  \<open>undefined\<close> or \<open>NaN\<close>.
\<close>

fun js_le :: "jsnum \<Rightarrow> jsnum \<Rightarrow> bool" where
  "js_le (Num a) (Num b) = (a \<le> b)"
| "js_le NInf (Num b) = True"
| "js_le NInf NInf = True"
| "js_le NInf PInf = True"
| "js_le (Num a) PInf = True"
| "js_le PInf PInf = True"
| "js_le _ _ = False"

definition js_ge :: "jsnum \<Rightarrow> jsnum \<Rightarrow> bool" where
  "js_ge a b = js_le b a"

text \<open>\<open>a || b\<close> on string-or-absent operands: \<open>undefined\<close> and \<open>''\<close> are falsy.\<close>

fun str_or :: "jsstring option \<Rightarrow> jsstring option \<Rightarrow> jsstring option" where
  "str_or None b = b"
| "str_or (Some s) b = (if s = [] then b else Some s)"

subsection \<open>String methods\<close>

text \<open>
  \<open>s.split(' ')\<close>: cut at every occurrence of the separator code unit. The result is never
  empty: \<open>''.split(' ')\<close> is \<open>['']\<close>.
\<close>

fun js_split :: "nat \<Rightarrow> jsstring \<Rightarrow> jsstring list" where
  "js_split sep [] = [[]]"
| "js_split sep (c # cs) =
     (if c = sep then [] # js_split sep cs
      else (case js_split sep cs of
              [] \<Rightarrow> [[c]]
            | t # ts \<Rightarrow> (c # t) # ts))"

text \<open>\<open>xs.join(sep)\<close> on an array of strings.\<close>

fun js_join :: "jsstring \<Rightarrow> jsstring list \<Rightarrow> jsstring" where
  "js_join sep [] = []"
| "js_join sep [x] = x"
| "js_join sep (x # y # ys) = x @ sep @ js_join sep (y # ys)"

text \<open>
  The code units \<open>trim\<close> strips: ECMAScript \<open>WhiteSpace\<close> (TAB, VT, FF, SP, NBSP, ZWNBSP
  and the Unicode space separators) and \<open>LineTerminator\<close> (LF, CR, LS, PS).
\<close>

definition is_js_space :: "nat \<Rightarrow> bool" where
  "is_js_space u \<longleftrightarrow>
     u = 0x9 \<or> u = 0xA \<or> u = 0xB \<or> u = 0xC \<or> u = 0xD \<or> u = 0x20 \<or> u = 0xA0 \<or>
     u = 0x1680 \<or> (0x2000 \<le> u \<and> u \<le> 0x200A) \<or> u = 0x2028 \<or> u = 0x2029 \<or>
     u = 0x202F \<or> u = 0x205F \<or> u = 0x3000 \<or> u = 0xFEFF"

definition trim :: "jsstring \<Rightarrow> jsstring" where
  "trim s = rev (dropWhile is_js_space (rev (dropWhile is_js_space s)))"

abbreviation SPACE :: nat where
  "SPACE \<equiv> 0x20"

subsection \<open>Exceptions\<close>

text \<open>
  \<open>TypeError\<close> is what the engine throws on a property read or a method call on
  \<open>undefined\<close> or \<open>null\<close>; \<open>JsError\<close> is a plain \<open>Error\<close> thrown by library code.
\<close>

datatype error = TypeError | JsError

section \<open>Canonical data model: words and cues\<close>

text \<open>
  A word object \<open>{ word, start, end }\<close> and a caption object
  \<open>{ id, start, end, text, words }\<close>. A cue built without a \<open>words\<close> property has
  \<open>c_words = None\<close>.
\<close>

record word =
  w_word :: "jsstring option"
  w_start :: jsnum
  w_end :: jsnum

record cue =
  c_id :: nat
  c_start :: jsnum
  c_end :: jsnum
  c_text :: jsstring
  c_words :: "word list option"

section \<open>Timeline resolver (CaptionedVideo)\<close>

text \<open>
  \<open>activeCaptions\<close>: \<open>captions.filter(c => currentTime >= c.start && currentTime <= c.end)\<close>.
\<close>

definition activeCaptions :: "cue list \<Rightarrow> rat \<Rightarrow> cue list" where
  "activeCaptions captions currentTime =
     filter (\<lambda>caption. js_ge (Num currentTime) (c_start caption) \<and>
                        js_le (Num currentTime) (c_end caption)) captions"

text \<open>
  \<open>interpolate\<close> is imported from the \<open>remotion\<close> package, which is not part of the
  repository. The model follows the package's contract at the one call shape
  \<open>currentWordData\<close> uses, \<open>interpolate(input, [a, b], [0, 1], { extrapolateLeft: 'clamp',
  extrapolateRight: 'clamp' })\<close>: an \<open>Error\<close> is thrown unless both ends of the input range
  are finite numbers and the range is strictly increasing; otherwise the input is
  clamped to the range and mapped linearly, \<open>(input - a) / (b - a)\<close>. Scaling to the output
  range \<open>[0, 1]\<close> multiplies by one and adds zero.
\<close>

definition interpolate :: "rat \<Rightarrow> jsnum \<Rightarrow> jsnum \<Rightarrow> error + jsnum" where
  "interpolate input a b =
     (case (a, b) of
        (Num s, Num e) \<Rightarrow>
          if s < e
          then Inr (js_div (js_sub (Num (max s (min e input))) (Num s)) (js_sub (Num e) (Num s)))
          else Inl JsError
      | _ \<Rightarrow> Inl JsError)"

text \<open>
  The result of \<open>currentWordData\<close>: the word found, spread into a new object, with its
  \<open>progress\<close>.
\<close>

record word_data =
  wd_word :: word
  wd_progress :: jsnum

text \<open>
  \<open>currentWordData\<close>: \<open>null\<close> unless the preset style is \<open>'karaoke'\<close> and a caption is
  active; then the first active caption's words are searched for the first word whose
  span contains the current time, and \<open>interpolate\<close> is called on that word's span without
  any check of its own. \<open>word_active\<close> is the predicate given to \<open>find\<close>:
  \<open>currentTime >= word.start && currentTime <= word.end\<close>.
\<close>

definition word_active :: "rat \<Rightarrow> word \<Rightarrow> bool" where
  "word_active currentTime w \<longleftrightarrow>
     js_ge (Num currentTime) (w_start w) \<and> js_le (Num currentTime) (w_end w)"

definition currentWordData ::
  "jsstring option \<Rightarrow> cue list \<Rightarrow> rat \<Rightarrow> error + word_data option" where
  "currentWordData style active currentTime =
     (if style \<noteq> Some (ascii ''karaoke'') \<or> length active = 0 then Inr None
      else (case active of
              [] \<Rightarrow> Inr None
            | activeCaption # _ \<Rightarrow>
                (case c_words activeCaption of
                   None \<Rightarrow> Inr None
                 | Some ws \<Rightarrow>
                     (case find (word_active currentTime) ws of
                        None \<Rightarrow> Inr None
                      | Some currentWord \<Rightarrow>
                          (case interpolate currentTime (w_start currentWord) (w_end currentWord) of
                             Inl e \<Rightarrow> Inl e
                           | Inr progress \<Rightarrow>
                               Inr (Some \<lparr>wd_word = currentWord, wd_progress = progress\<rparr>))))))"

section \<open>Script classifier (CaptionRenderer)\<close>

text \<open>
  \<open>containsHindi\<close>: a regular expression with the one character class from U+0900 to
  U+097F, tested on \<open>caption.text\<close>. Without the \<open>u\<close> flag the class ranges over
  code units.
\<close>

definition containsHindi :: "jsstring \<Rightarrow> bool" where
  "containsHindi text = list_ex (\<lambda>u. 0x900 \<le> u \<and> u \<le> 0x97F) text"

datatype font_family = hinglish | english

text \<open>\<open>fontFamily: containsHindi ? FONT_FAMILIES.hinglish : FONT_FAMILIES.english\<close>.\<close>

definition fontFamily :: "jsstring \<Rightarrow> font_family" where
  "fontFamily text = (if containsHindi text then hinglish else english)"

text \<open>
  The specification speaks of code points. This is the UTF-16 decoding of a code-unit
  sequence: a high surrogate followed by a low surrogate is one supplementary code
  point, every other code unit is its own code point.
\<close>

fun code_points :: "jsstring \<Rightarrow> nat list" where
  "code_points [] = []"
| "code_points [u] = [u]"
| "code_points (u # v # us) =
     (if 0xD800 \<le> u \<and> u \<le> 0xDBFF \<and> 0xDC00 \<le> v \<and> v \<le> 0xDFFF
      then (0x10000 + (u - 0xD800) * 0x400 + (v - 0xDC00)) # code_points us
      else u # code_points (v # us))"

section \<open>Transcription normalizer (server)\<close>

text \<open>
  Raw transcriptions are parsed JSON. The model keeps the properties the normalizers
  read; an absent property is \<open>None\<close> (or \<open>Undef\<close> for a number), and a number written in
  the JSON text is a binary64 value. Reading a property of \<open>null\<close> or \<open>undefined\<close>, or
  calling a method on \<open>undefined\<close>, throws \<open>TypeError\<close>.
\<close>

text \<open>An entry of a cloud segment's own \<open>words\<close> array: \<open>{ word, text, start, end }\<close>.\<close>

record raw_word =
  rw_word :: "jsstring option"
  rw_text :: "jsstring option"
  rw_start :: jsnum
  rw_end :: jsnum

text \<open>A segment with \<open>start\<close>/\<open>end\<close> in seconds: \<open>{ start, end, text, words }\<close>.\<close>

record segment =
  s_start :: jsnum
  s_end :: jsnum
  s_text :: "jsstring option"
  s_words :: "raw_word list option"

text \<open>
  A whisper.cpp segment \<open>{ offsets: { from, to }, text }\<close> with the offsets in
  milliseconds.
\<close>

record wsegment =
  ws_offsets :: "(jsnum \<times> jsnum) option"
  ws_text :: "jsstring option"

record transcription =
  t_text :: "jsstring option"
  t_words :: "word list option"
  t_segments :: "segment list option"
  t_transcription :: "wsegment list option"

datatype raw = JNull | JObject transcription

text \<open>\<open>xs.map(f)\<close> with a callback that may throw: the first exception leaves the loop.\<close>

fun map_err :: "('a \<Rightarrow> error + 'b) \<Rightarrow> 'a list \<Rightarrow> error + 'b list" where
  "map_err f [] = Inr []"
| "map_err f (x # xs) =
     (case f x of
        Inl e \<Rightarrow> Inl e
      | Inr y \<Rightarrow> (case map_err f xs of Inl e \<Rightarrow> Inl e | Inr ys \<Rightarrow> Inr (y # ys)))"

text \<open>\<open>transcription.text || 'No captions available'\<close>.\<close>

definition text_or_placeholder :: "jsstring option \<Rightarrow> jsstring" where
  "text_or_placeholder txt =
     (case str_or txt (Some (ascii ''No captions available'')) of
        None \<Rightarrow> []
      | Some s \<Rightarrow> s)"

text \<open>
  The fallback cue of \<open>processTranscription\<close> and \<open>processGeminiTranscription\<close>:
  \<open>{ id: 1, start: 0, end: 5, text: ... }\<close>, without a \<open>words\<close> property.
\<close>

definition fallback_cue :: "transcription \<Rightarrow> cue" where
  "fallback_cue t =
     \<lparr>c_id = 1, c_start = Num 0, c_end = Num 5,
      c_text = text_or_placeholder (t_text t), c_words = None\<rparr>"

subsection \<open>processTranscription\<close>

definition wordsPerSegment :: nat where
  "wordsPerSegment = 8"

text \<open>An element of \<open>segmentWords.map(w => w.word)\<close> as \<open>join\<close> prints it.\<close>

definition word_text :: "word \<Rightarrow> jsstring" where
  "word_text w = (case w_word w of None \<Rightarrow> [] | Some s \<Rightarrow> s)"

text \<open>
  The callback of \<open>Array.from\<close>: the cue of window \<open>index\<close>. \<open>segmentWords[0].start\<close>
  throws when the slice is empty.
\<close>

definition window_cue :: "word list \<Rightarrow> nat \<Rightarrow> error + cue" where
  "window_cue words index =
     (let startIdx = index * wordsPerSegment;
          segmentWords = take wordsPerSegment (drop startIdx words)
      in case segmentWords of
           [] \<Rightarrow> Inl TypeError
         | w0 # _ \<Rightarrow>
             Inr \<lparr>c_id = index + 1,
                  c_start = w_start w0,
                  c_end = w_end (last segmentWords),
                  c_text = trim (js_join [SPACE] (map word_text segmentWords)),
                  c_words = Some segmentWords\<rparr>)"

definition processTranscription :: "raw \<Rightarrow> error + cue list" where
  "processTranscription r =
     (case r of
        JNull \<Rightarrow> Inl TypeError
      | JObject t \<Rightarrow>
          (case t_words t of
             None \<Rightarrow> Inr [fallback_cue t]
           | Some words \<Rightarrow>
               if length words = 0 then Inr [fallback_cue t]
               else map_err (window_cue words)
                      [0 ..< nat \<lceil>(of_nat (length words) :: rat) / of_nat wordsPerSegment\<rceil>]))"

subsection \<open>Words synthesized from a segment's text\<close>

text \<open>
  The expression shared by \<open>processGeminiTranscription\<close> and the segment branch of
  \<open>processWhisperTranscription\<close>:
  \<open>segment.text.split(' ').map((word, wordIndex) => ...)\<close> with
  \<open>wordDuration = (segment.end - segment.start) / segment.text.split(' ').length\<close>.
\<close>

definition segment_text_words :: "jsnum \<Rightarrow> jsnum \<Rightarrow> jsstring \<Rightarrow> word list" where
  "segment_text_words seg_start seg_end text =
     map (\<lambda>(wordIndex, w).
            let wordDuration =
                  js_div (js_sub seg_end seg_start)
                         (Num (of_nat (length (js_split SPACE text))))
            in \<lparr>w_word = Some w,
                w_start = js_add seg_start (js_mul (Num (of_nat wordIndex)) wordDuration),
                w_end = js_add seg_start (js_mul (Num (of_nat (wordIndex + 1))) wordDuration)\<rparr>)
         (enumerate 0 (js_split SPACE text))"

subsection \<open>processGeminiTranscription\<close>

definition gemini_cue :: "nat \<times> segment \<Rightarrow> error + cue" where
  "gemini_cue p =
     (case p of (index, seg) \<Rightarrow>
        (case s_text seg of
           None \<Rightarrow> Inl TypeError
         | Some text \<Rightarrow>
             Inr \<lparr>c_id = index + 1,
                  c_start = s_start seg,
                  c_end = s_end seg,
                  c_text = text,
                  c_words = Some (segment_text_words (s_start seg) (s_end seg) text)\<rparr>))"

definition processGeminiTranscription :: "raw \<Rightarrow> error + cue list" where
  "processGeminiTranscription r =
     (case r of
        JNull \<Rightarrow> Inl TypeError
      | JObject t \<Rightarrow>
          (case t_segments t of
             None \<Rightarrow> Inr [fallback_cue t]
           | Some segments \<Rightarrow>
               if length segments = 0 then Inr [fallback_cue t]
               else map_err gemini_cue (enumerate 0 segments)))"

subsection \<open>processWhisperTranscription\<close>

text \<open>
  The whisper.cpp branch. \<open>segment.offsets?.from / 1000 || 0\<close> and
  \<open>segment.offsets?.to / 1000 || startTime + 3\<close>; the text is trimmed, split at spaces
  and the empty pieces are filtered out before the words are timed.
\<close>

definition offsets_from :: "wsegment \<Rightarrow> jsnum" where
  "offsets_from seg = (case ws_offsets seg of None \<Rightarrow> Undef | Some (f, t) \<Rightarrow> f)"

definition offsets_to :: "wsegment \<Rightarrow> jsnum" where
  "offsets_to seg = (case ws_offsets seg of None \<Rightarrow> Undef | Some (f, t) \<Rightarrow> t)"

definition whisper_words :: "jsnum \<Rightarrow> jsnum \<Rightarrow> jsstring \<Rightarrow> word list" where
  "whisper_words startTime endTime text =
     (let allWords = filter (\<lambda>w. length w > 0) (js_split SPACE text)
      in map (\<lambda>(wordIndex, w).
                let segmentDuration = js_sub endTime startTime;
                    wordDuration = js_div segmentDuration (Num (of_nat (length allWords)));
                    wordStartTime = js_add startTime (js_mul (Num (of_nat wordIndex)) wordDuration)
                in \<lparr>w_word = Some w,
                    w_start = wordStartTime,
                    w_end = js_add wordStartTime wordDuration\<rparr>)
             (enumerate 0 allWords))"

definition whisper_cpp_cue :: "nat \<times> wsegment \<Rightarrow> cue" where
  "whisper_cpp_cue p =
     (case p of (index, seg) \<Rightarrow>
        (let startTime = js_or (js_div (offsets_from seg) (Num 1000)) (Num 0);
             endTime = js_or (js_div (offsets_to seg) (Num 1000)) (js_add startTime (Num 3));
             text = (case ws_text seg of None \<Rightarrow> [] | Some s \<Rightarrow> trim s)
         in \<lparr>c_id = index + 1,
             c_start = startTime,
             c_end = endTime,
             c_text = text,
             c_words = Some (whisper_words startTime endTime text)\<rparr>))"

text \<open>
  The fallback of \<open>processWhisperTranscription\<close>: one cue over \<open>[0, 5]\<close> whose words are
  the pieces of the text, half a second each:
  \<open>fullText.split(' ').map((word, index) => ({ word, start: index * 0.5, end: (index + 1) * 0.5 }))\<close>.
  An array index times \<open>0.5\<close> is exact in binary64.
\<close>

definition half_second_words :: "jsstring \<Rightarrow> word list" where
  "half_second_words fullText =
     map (\<lambda>(index, w).
            \<lparr>w_word = Some w,
             w_start = Num (of_nat index * (1 / 2)),
             w_end = Num (of_nat (index + 1) * (1 / 2))\<rparr>)
         (enumerate 0 (js_split SPACE fullText))"

definition whisper_fallback_cue :: "transcription \<Rightarrow> cue" where
  "whisper_fallback_cue t =
     (let fullText = text_or_placeholder (t_text t)
      in \<lparr>c_id = 1, c_start = Num 0, c_end = Num 5, c_text = fullText,
          c_words = Some (half_second_words fullText)\<rparr>)"

text \<open>
  A word of a segment's own \<open>words\<close> array:
  \<open>{ word: word.word || word.text, start: word.start || segment.start,
     end: word.end || word.start + 0.5 }\<close>.
\<close>

definition own_word :: "segment \<Rightarrow> raw_word \<Rightarrow> word" where
  "own_word seg w =
     \<lparr>w_word = str_or (rw_word w) (rw_text w),
      w_start = js_or (rw_start w) (s_start seg),
      w_end = js_or (rw_end w) (js_add (rw_start w) (Num (1 / 2)))\<rparr>"

text \<open>
  The segment branch: \<open>start: segment.start || 0\<close>,
  \<open>end: segment.end || segment.start + 3\<close>, \<open>text: segment.text || ''\<close>, and the words
  either mapped from the segment's own array or synthesized from \<open>segment.text\<close>, which
  is read without a guard.
\<close>

definition whisper_segment_cue :: "nat \<times> segment \<Rightarrow> error + cue" where
  "whisper_segment_cue p =
     (case p of (index, seg) \<Rightarrow>
        (case (case s_words seg of
                 Some ws \<Rightarrow> Inr (map (own_word seg) ws)
               | None \<Rightarrow>
                   (case s_text seg of
                      None \<Rightarrow> Inl TypeError
                    | Some text \<Rightarrow> Inr (segment_text_words (s_start seg) (s_end seg) text))) of
           Inl e \<Rightarrow> Inl e
         | Inr ws \<Rightarrow>
             Inr \<lparr>c_id = index + 1,
                  c_start = js_or (s_start seg) (Num 0),
                  c_end = js_or (s_end seg) (js_add (s_start seg) (Num 3)),
                  c_text = (case str_or (s_text seg) (Some []) of None \<Rightarrow> [] | Some s \<Rightarrow> s),
                  c_words = Some ws\<rparr>))"

definition processWhisperTranscription :: "raw \<Rightarrow> error + cue list" where
  "processWhisperTranscription r =
     (case r of
        JNull \<Rightarrow> Inl TypeError
      | JObject t \<Rightarrow>
          (case t_transcription t of
             Some segments \<Rightarrow> Inr (map whisper_cpp_cue (enumerate 0 segments))
           | None \<Rightarrow>
               (case t_segments t of
                  None \<Rightarrow> Inr [whisper_fallback_cue t]
                | Some segments \<Rightarrow>
                    if length segments = 0 then Inr [whisper_fallback_cue t]
                    else map_err whisper_segment_cue (enumerate 0 segments))))"

subsection \<open>generateDemoCaptions\<close>

definition demoTexts :: "jsstring list" where
  "demoTexts =
     [ascii ''Welcome to this amazing video demonstration'',
      [2351, 2361, 32, 2319, 2325, 32, 2348, 2375, 2361, 2340, 2352, 2368, 2344, 32,
       2357, 2368, 2337, 2367, 2351, 2379, 32, 2325, 2366, 32, 2313, 2342, 2366, 2361,
       2352, 2339, 32, 2361, 2376],
      ascii ''This shows how captions work perfectly'',
      ascii ''Multiple styles '' @ [2324, 2352] @ ascii '' effects '' @ [2325, 2375, 32, 2360, 2366, 2341],
      ascii ''Beautiful typography and smooth animations'',
      ascii ''Perfect for all your video needs'']"

text \<open>
  The words of demo caption \<open>index\<close>, 0.4 seconds each from the caption's start:
  \<open>start: index * 3 + (wordIndex * 0.4)\<close> and \<open>end: index * 3 + ((wordIndex + 1) * 0.4)\<close>.
  The literal \<open>0.4\<close> is the binary64 number nearest to two fifths. The products of an array
  index with \<open>3\<close> here, and with \<open>0.5\<close> in \<open>half_second_words\<close>, are exact in binary64.
\<close>

definition lit_0_4 :: jsnum where
  "lit_0_4 = fl (2 / 5)"

definition demo_words :: "nat \<Rightarrow> jsstring \<Rightarrow> word list" where
  "demo_words index text =
     map (\<lambda>(wordIndex, w).
            \<lparr>w_word = Some w,
             w_start = js_add (Num (of_nat index * 3)) (js_mul (Num (of_nat wordIndex)) lit_0_4),
             w_end = js_add (Num (of_nat index * 3))
                            (js_mul (Num (of_nat (wordIndex + 1))) lit_0_4)\<rparr>)
         (enumerate 0 (js_split SPACE text))"

definition demo_cue :: "nat \<times> jsstring \<Rightarrow> cue" where
  "demo_cue p =
     (case p of (index, text) \<Rightarrow>
        \<lparr>c_id = index + 1,
         c_start = Num (of_nat index * 3),
         c_end = Num (of_nat (index + 1) * 3),
         c_text = text,
         c_words = Some (demo_words index text)\<rparr>)"

definition generateDemoCaptions :: "cue list" where
  "generateDemoCaptions = map demo_cue (enumerate 0 demoTexts)"

section \<open>Notions used to state the properties\<close>

text \<open>
  Following the specification's words: a cue spans \<open>t\<close> when
  \<open>startSec <= t <= endSec\<close>, both ends inclusive. An infinite end bounds nothing on its
  side.
\<close>

definition cue_spans :: "cue \<Rightarrow> rat \<Rightarrow> bool" where
  "cue_spans c t =
     (case (c_start c, c_end c) of
        (Num s, Num e) \<Rightarrow> s \<le> t \<and> t \<le> e
      | (Num s, PInf) \<Rightarrow> s \<le> t
      | (NInf, Num e) \<Rightarrow> t \<le> e
      | (NInf, PInf) \<Rightarrow> True
      | _ \<Rightarrow> False)"

text \<open>The words of a cue, none when the cue has no \<open>words\<close> property.\<close>

definition cue_words :: "cue \<Rightarrow> word list" where
  "cue_words c = (case c_words c of None \<Rightarrow> [] | Some ws \<Rightarrow> ws)"

subsection \<open>Concrete inputs of the scenarios\<close>

text \<open>Two adjacent cues that share the boundary timestamp \<open>3\<close>.\<close>

definition cueA :: cue where
  "cueA = \<lparr>c_id = 1, c_start = Num 0, c_end = Num 3, c_text = ascii ''a'', c_words = None\<rparr>"

definition cueB :: cue where
  "cueB = \<lparr>c_id = 2, c_start = Num 3, c_end = Num 6, c_text = ascii ''b'', c_words = None\<rparr>"

text \<open>A word with \<open>start = 2.0\<close> and \<open>end = 2.0\<close>, in a cue over \<open>[0, 5]\<close>.\<close>

definition instant_word :: word where
  "instant_word = \<lparr>w_word = Some (ascii ''now''), w_start = Num 2, w_end = Num 2\<rparr>"

definition instant_cue :: cue where
  "instant_cue = \<lparr>c_id = 1, c_start = Num 0, c_end = Num 5, c_text = ascii ''now'',
                   c_words = Some [instant_word]\<rparr>"

text \<open>A word over \<open>[1, 3]\<close>, in a cue over \<open>[0, 5]\<close>.\<close>

definition spoken_word :: word where
  "spoken_word = \<lparr>w_word = Some (ascii ''well''), w_start = Num 1, w_end = Num 3\<rparr>"

definition spoken_cue :: cue where
  "spoken_cue = \<lparr>c_id = 1, c_start = Num 0, c_end = Num 5, c_text = ascii ''well'',
                  c_words = Some [spoken_word]\<rparr>"

text \<open>The string of the classification scenario: two Devanagari words and \<open>test\<close>.\<close>

definition yah_ek_test :: jsstring where
  "yah_ek_test = [2351, 2361, 32, 2319, 2325, 32] @ ascii ''test''"

text \<open>
  Following the specification's words: window \<open>k\<close> of a word list, the \<open>k\<close>-th run of up
  to eight consecutive words in input order.
\<close>

definition window :: "word list \<Rightarrow> nat \<Rightarrow> word list" where
  "window ws k = take 8 (drop (8 * k) ws)"

text \<open>The cue the specification asks for window \<open>k\<close>.\<close>

definition window_cue_of :: "word list \<Rightarrow> nat \<Rightarrow> cue" where
  "window_cue_of ws k =
     \<lparr>c_id = k + 1,
      c_start = w_start (hd (window ws k)),
      c_end = w_end (last (window ws k)),
      c_text = trim (js_join [SPACE] (map word_text (window ws k))),
      c_words = Some (window ws k)\<rparr>"

text \<open>Seventeen timestamped words, and a transcription that carries only a word list.\<close>

definition seventeen_words :: "word list" where
  "seventeen_words =
     map (\<lambda>i. \<lparr>w_word = Some [65 + i], w_start = Num (of_nat i), w_end = Num (of_nat i + 1)\<rparr>)
       [0..<17]"

definition words_only :: "word list \<Rightarrow> transcription" where
  "words_only ws = \<lparr>t_text = None, t_words = Some ws, t_segments = None, t_transcription = None\<rparr>"

text \<open>The segment list of a transcription, empty when it has no \<open>segments\<close> property.\<close>

definition segments_of :: "transcription \<Rightarrow> segment list" where
  "segments_of t = (case t_segments t of None \<Rightarrow> [] | Some segs \<Rightarrow> segs)"

text \<open>The raw input \<open>{ text: "", segments: [] }\<close>.\<close>

definition empty_transcription :: transcription where
  "empty_transcription =
     \<lparr>t_text = Some [], t_words = None, t_segments = Some [], t_transcription = None\<rparr>"

text \<open>A transcription that carries only a segment list.\<close>

definition segments_only :: "segment list \<Rightarrow> transcription" where
  "segments_only segs =
     \<lparr>t_text = None, t_words = None, t_segments = Some segs, t_transcription = None\<rparr>"

text \<open>A segment \<open>{ start: 0, end: 3 }\<close> without text, and one with text.\<close>

definition textless_segment :: segment where
  "textless_segment = \<lparr>s_start = Num 0, s_end = Num 3, s_text = None, s_words = None\<rparr>"

definition hi_segment :: segment where
  "hi_segment = \<lparr>s_start = Num 2, s_end = Num 4, s_text = Some (ascii ''hi there''), s_words = None\<rparr>"

text \<open>
  A cloud segment over \<open>[2, 4]\<close> with its own word array: one word without \<open>end\<close>, and
  one with both timings and only a \<open>text\<close> property.
\<close>

definition endless_word :: raw_word where
  "endless_word = \<lparr>rw_word = Some (ascii ''hi''), rw_text = None, rw_start = Num 2, rw_end = Undef\<rparr>"

definition timed_word :: raw_word where
  "timed_word = \<lparr>rw_word = None, rw_text = Some (ascii ''yo''), rw_start = Num 3, rw_end = Num (7 / 2)\<rparr>"

definition worded_segment :: segment where
  "worded_segment =
     \<lparr>s_start = Num 2, s_end = Num 4, s_text = Some (ascii ''hi yo''),
      s_words = Some [endless_word, timed_word]\<rparr>"

text \<open>
  Following the specification's words: tokens are produced by splitting text on
  whitespace and discarding empty tokens.
\<close>

fun split_where :: "(nat \<Rightarrow> bool) \<Rightarrow> jsstring \<Rightarrow> jsstring list" where
  "split_where P [] = [[]]"
| "split_where P (c # cs) =
     (if P c then [] # split_where P cs
      else (case split_where P cs of
              [] \<Rightarrow> [[c]]
            | t # ts \<Rightarrow> (c # t) # ts))"

definition spec_tokens :: "jsstring \<Rightarrow> jsstring list" where
  "spec_tokens text = filter (\<lambda>w. w \<noteq> []) (split_where is_js_space text)"

text \<open>
  Following the specification's words: token \<open>i\<close> of \<open>n\<close> over \<open>[a, b]\<close> receives
  \<open>[a + i * (b - a) / n, a + (i + 1) * (b - a) / n]\<close>, as real numbers.
\<close>

definition uniform_word :: "rat \<Rightarrow> rat \<Rightarrow> nat \<Rightarrow> nat \<Rightarrow> jsstring \<Rightarrow> word" where
  "uniform_word a b n i w =
     \<lparr>w_word = Some w,
      w_start = Num (a + of_nat i * (b - a) / of_nat n),
      w_end = Num (a + (of_nat i + 1) * (b - a) / of_nat n)\<rparr>"

definition uniform_words :: "rat \<Rightarrow> rat \<Rightarrow> jsstring list \<Rightarrow> word list" where
  "uniform_words a b toks =
     map (\<lambda>(i, w). uniform_word a b (length toks) i w) (enumerate 0 toks)"

definition spec_subdivision :: "rat \<Rightarrow> rat \<Rightarrow> jsstring \<Rightarrow> word list" where
  "spec_subdivision a b text = uniform_words a b (spec_tokens text)"

text \<open>
  The value of \<open>wordDuration\<close> for a span \<open>[a, b]\<close> cut into \<open>n\<close> pieces, and the start the
  code gives piece \<open>i\<close>: \<open>start + i * wordDuration\<close>.
\<close>

definition word_duration :: "jsnum \<Rightarrow> jsnum \<Rightarrow> nat \<Rightarrow> jsnum" where
  "word_duration s e n = js_div (js_sub e s) (Num (of_nat n))"

definition piece_start :: "jsnum \<Rightarrow> jsnum \<Rightarrow> nat \<Rightarrow> jsnum" where
  "piece_start s d i = js_add s (js_mul (Num (of_nat i)) d)"

text \<open>
  The pieces of a text that the whisper.cpp branch keeps: those between single spaces
  that are not empty.
\<close>

definition kept_tokens :: "jsstring \<Rightarrow> jsstring list" where
  "kept_tokens text = filter (\<lambda>w. w \<noteq> []) (js_split SPACE text)"

text \<open>A segment \<open>{ start: a, end: b, text }\<close>, and the tokens of the scenario.\<close>

definition text_segment :: "rat \<Rightarrow> rat \<Rightarrow> jsstring \<Rightarrow> segment" where
  "text_segment a b text = \<lparr>s_start = Num a, s_end = Num b, s_text = Some text, s_words = None\<rparr>"

definition one_two_three :: "jsstring list" where
  "one_two_three = [ascii ''one'', ascii ''two'', ascii ''three'']"

text \<open>
  Inputs on which rounding shows: the binary64 number that the JSON text \<open>0.9\<close> denotes,
  a segment over \<open>[0, 0.9]\<close> with three words, a whisper.cpp segment over 1000 to 2000
  milliseconds with three words, and a one-word segment whose length overflows. Last, a
  segment whose end lies before its start.
\<close>

definition nine_tenths :: rat where
  "nine_tenths = 8106479329266893 / 9007199254740992"

definition tenths_segment :: segment where
  "tenths_segment = text_segment 0 nine_tenths (ascii ''a b c'')"

definition second_segment :: wsegment where
  "second_segment = \<lparr>ws_offsets = Some (Num 1000, Num 2000), ws_text = Some (ascii ''a b c'')\<rparr>"

definition huge :: rat where
  "huge = 2 ^ 1023"

definition huge_segment :: segment where
  "huge_segment = text_segment (- huge) huge (ascii ''a'')"

definition backward_segment :: segment where
  "backward_segment = text_segment 6 3 (ascii ''a b'')"

text \<open>
  Following the specification's words, the invariant of a cue with a non-empty derived
  word list: \<open>startSec\<close> is the first word's, \<open>endSec\<close> the last word's, and the text is the
  words joined by single spaces, trimmed.
\<close>

definition cue_invariant :: "cue \<Rightarrow> bool" where
  "cue_invariant c =
     (case cue_words c of
        [] \<Rightarrow> True
      | w # ws \<Rightarrow>
          c_start c = w_start w \<and> c_end c = w_end (last (w # ws))
          \<and> c_text c = trim (js_join [SPACE] (map word_text (w # ws))))"

text \<open>The parts of the invariant, for the paths that keep only some of them.\<close>

definition ends_with_last_word :: "cue \<Rightarrow> bool" where
  "ends_with_last_word c \<longleftrightarrow>
     cue_words c \<noteq> [] \<and> c_end c = w_end (last (cue_words c))"

definition text_joins_words :: "cue \<Rightarrow> bool" where
  "text_joins_words c \<longleftrightarrow> c_text c = js_join [SPACE] (map word_text (cue_words c))"

definition starts_with_first_word :: "cue \<Rightarrow> bool" where
  "starts_with_first_word c \<longleftrightarrow>
     cue_words c \<noteq> [] \<and> c_start c = w_start (hd (cue_words c))"

text \<open>
  A whisper.cpp segment over 3000 to 6000 milliseconds whose text has spaces around and
  a double space inside.
\<close>

definition spaced_segment :: wsegment where
  "spaced_segment =
     \<lparr>ws_offsets = Some (Num 3000, Num 6000), ws_text = Some (ascii '' one  two three '')\<rparr>"

section \<open>Properties of the rounding\<close>

text \<open>
  The binary exponent is the unique one, rounding is monotone and idempotent, and the
  integers below \<open>2 ^ 53\<close> are binary64 numbers. \<open>fl_eqI\<close> evaluates a rounding from
  its exponent and its rounded significand.
\<close>

lemma powi_less_exp: "(2::rat) powi a < 2 powi b \<Longrightarrow> a < b"
proof (rule ccontr)
  assume l: "(2::rat) powi a < 2 powi b" and "\<not> a < b"
  then have "b \<le> a" by simp
  then have "(2::rat) powi b \<le> 2 powi a" by (intro power_int_increasing) simp_all
  then show False using l by simp
qed

lemma bitlen_powi_bounds:
  assumes "0 < p"
  shows "(2::rat) powi (bitlen p - 1) \<le> of_int p" "of_int p < (2::rat) powi (bitlen p)"
proof -
  have b: "2 ^ nat (bitlen p - 1) \<le> p" "p < 2 ^ nat (bitlen p)"
    using bitlen_bounds [OF assms] by simp_all
  have pos: "1 \<le> bitlen p"
    using assms by (simp add: bitlen_alt_def)
  have "(2::rat) powi (bitlen p - 1) = 2 ^ nat (bitlen p - 1)"
    using pos by (simp add: power_int_def)
  also have "\<dots> = of_int (2 ^ nat (bitlen p - 1))" by simp
  also have "\<dots> \<le> of_int p" using b(1) by (simp only: of_int_le_iff)
  finally show "(2::rat) powi (bitlen p - 1) \<le> of_int p" .
  have "(of_int p :: rat) < of_int (2 ^ nat (bitlen p))"
    using b(2) by (simp only: of_int_less_iff)
  also have "\<dots> = 2 powi (bitlen p)"
    using pos by (simp add: power_int_def)
  finally show "of_int p < (2::rat) powi (bitlen p)" .
qed

lemma ilog2_bounds:
  assumes "0 < x"
  shows "2 powi (ilog2 x) \<le> x" "x < 2 powi (ilog2 x + 1)"
proof -
  obtain p q where pq: "quotient_of x = (p, q)" by (cases "quotient_of x")
  have q: "0 < q" using pq by (rule quotient_of_denom_pos)
  have x: "x = of_int p / of_int q" using pq by (rule quotient_of_div)
  have p: "0 < p" using assms q x by (simp add: zero_less_divide_iff)
  let ?d = "bitlen p - bitlen q"
  have up: "x < 2 powi (?d + 1)"
  proof -
    have "x < 2 powi (bitlen p) / of_int q"
      unfolding x using bitlen_powi_bounds(2) [OF p] q by (simp add: divide_strict_right_mono)
    also have "\<dots> \<le> 2 powi (bitlen p) / 2 powi (bitlen q - 1)"
      using bitlen_powi_bounds(1) [OF q] q by (intro divide_left_mono) simp_all
    also have "\<dots> = 2 powi (bitlen p - (bitlen q - 1))"
      by (simp add: power_int_diff)
    finally show ?thesis by (simp add: algebra_simps)
  qed
  have lo: "2 powi (?d - 1) \<le> x"
  proof -
    have "(2::rat) powi (?d - 1) = 2 powi (bitlen p - 1) / 2 powi (bitlen q)"
      by (simp add: power_int_diff [symmetric] algebra_simps)
    also have "\<dots> \<le> of_int p / 2 powi (bitlen q)"
      using bitlen_powi_bounds(1) [OF p] by (intro divide_right_mono) simp_all
    also have "\<dots> \<le> of_int p / of_int q"
      using bitlen_powi_bounds(2) [OF q] p q by (intro divide_left_mono) simp_all
    finally show ?thesis by (simp add: x)
  qed
  have il: "ilog2 x = (if 2 powi ?d \<le> x then ?d else ?d - 1)"
    by (simp add: ilog2_def pq Let_def)
  show "2 powi (ilog2 x) \<le> x" using il lo by (simp split: if_splits)
  show "x < 2 powi (ilog2 x + 1)" using il up by (simp split: if_splits)
qed

lemma ilog2_unique:
  assumes "0 < x" "2 powi k \<le> x" "x < 2 powi (k + 1)"
  shows "ilog2 x = k"
proof -
  have "(2::rat) powi k < 2 powi (ilog2 x + 1)"
    using assms(2) ilog2_bounds(2) [OF assms(1)] by simp
  then have a: "k < ilog2 x + 1"
    by (rule powi_less_exp)
  have "(2::rat) powi (ilog2 x) < 2 powi (k + 1)"
    using assms(3) ilog2_bounds(1) [OF assms(1)] by simp
  then have "ilog2 x < k + 1"
    by (rule powi_less_exp)
  then show ?thesis using a by simp
qed

lemma ilog2_mono:
  assumes "0 < x" "x \<le> y"
  shows "ilog2 x \<le> ilog2 y"
proof -
  have "0 < y" using assms by simp
  have "(2::rat) powi (ilog2 x) < 2 powi (ilog2 y + 1)"
    using ilog2_bounds(1) [OF assms(1)] ilog2_bounds(2) [OF \<open>0 < y\<close>] assms(2) by simp
  then have "ilog2 x < ilog2 y + 1"
    by (rule powi_less_exp)
  then show ?thesis by simp
qed

lemma round_even_nearest:
  "of_int (round_even q) - 1 / 2 \<le> q" "q \<le> of_int (round_even q) + 1 / 2"
  unfolding round_even_def Let_def by (auto; linarith)+

lemma round_even_eqI:
  assumes "\<bar>q - of_int m\<bar> < 1 / 2"
  shows "round_even q = m"
proof -
  have "\<bar>q - of_int (round_even q)\<bar> \<le> 1 / 2"
    using round_even_nearest [of q] by linarith
  then have "\<bar>(of_int (round_even q) :: rat) - of_int m\<bar> < 1"
    using assms by linarith
  then have "\<bar>round_even q - m\<bar> < 1"
    by (metis of_int_diff of_int_abs of_int_less_1_iff)
  then show ?thesis by simp
qed

lemma round_even_of_int [simp]: "round_even (of_int m) = m"
  by (rule round_even_eqI) simp

lemma round_even_mono:
  assumes "p \<le> q"
  shows "round_even p \<le> round_even q"
proof (rule ccontr)
  assume "\<not> round_even p \<le> round_even q"
  then have gt: "round_even q + 1 \<le> round_even p" by simp
  then have "(of_int (round_even q) :: rat) + 1 \<le> of_int (round_even p)"
    by (metis of_int_1 of_int_add of_int_le_iff)
  moreover note round_even_nearest(1) [of p] round_even_nearest(2) [of q] assms
  ultimately have eq: "p = of_int (round_even p) - 1 / 2" "q = of_int (round_even q) + 1 / 2"
    "(of_int (round_even p) :: rat) = of_int (round_even q) + 1"
    by linarith+
  then have pq: "p = q" by simp
  then show False using gt by simp
qed

lemma round_even_ge: "of_int k \<le> q \<Longrightarrow> k \<le> round_even q"
  using round_even_mono [of "of_int k" q] by simp

lemma round_even_le: "q \<le> of_int k \<Longrightarrow> round_even q \<le> k"
  using round_even_mono [of q "of_int k"] by simp

lemma fl_pos_nonneg: "0 \<le> x \<Longrightarrow> 0 \<le> fl_pos x"
proof -
  assume "0 \<le> x"
  then have "0 \<le> x / 2 powi (max (ilog2 x - 52) (- 1074))" by simp
  then have "0 \<le> round_even (x / 2 powi (max (ilog2 x - 52) (- 1074)))"
    using round_even_ge [of 0] by simp
  then show ?thesis by (simp add: fl_pos_def Let_def)
qed

lemma fl_pos_mono:
  assumes "0 < x" "x \<le> y"
  shows "fl_pos x \<le> fl_pos y"
proof -
  have y: "0 < y" using assms by simp
  define ex where "ex = max (ilog2 x - 52) (- 1074)"
  define ey where "ey = max (ilog2 y - 52) (- 1074)"
  have fx: "fl_pos x = of_int (round_even (x / 2 powi ex)) * 2 powi ex"
    by (simp add: fl_pos_def ex_def Let_def)
  have fy: "fl_pos y = of_int (round_even (y / 2 powi ey)) * 2 powi ey"
    by (simp add: fl_pos_def ey_def Let_def)
  have le: "ex \<le> ey"
    using ilog2_mono [OF assms] by (simp add: ex_def ey_def)
  show ?thesis
  proof (cases "ex = ey")
    case True
    have "x / 2 powi ey \<le> y / 2 powi ey"
      using assms(2) by (intro divide_right_mono) simp_all
    then have "round_even (x / 2 powi ey) \<le> round_even (y / 2 powi ey)"
      by (rule round_even_mono)
    then have "(of_int (round_even (x / 2 powi ey)) :: rat) \<le> of_int (round_even (y / 2 powi ey))"
      by simp
    then show ?thesis
      unfolding fx fy True by (intro mult_right_mono) simp_all
  next
    case False
    then have lt: "ex + 1 \<le> ey" using le by simp
    then have ey: "ey = ilog2 y - 52" by (simp add: ey_def ex_def)
    have "(2::rat) powi 52 * 2 powi ey = 2 powi (52 + ey)"
      by (rule power_int_add [symmetric]) simp
    also have "52 + ey = ilog2 y" by (simp add: ey)
    also have "2 powi (ilog2 y) \<le> y" using ilog2_bounds(1) [OF y] .
    finally have "(2::rat) powi 52 \<le> y / 2 powi ey"
      by (simp only: pos_le_divide_eq zero_less_power_int zero_less_numeral)
    then have "(of_int (2 ^ 52) :: rat) \<le> y / 2 powi ey" by simp
    then have "2 ^ 52 \<le> round_even (y / 2 powi ey)" by (rule round_even_ge)
    then have "(of_int (2 ^ 52) :: rat) \<le> of_int (round_even (y / 2 powi ey))"
      by (simp only: of_int_le_iff)
    then have ylow: "(2::rat) ^ 52 * 2 powi ey \<le> fl_pos y"
      unfolding fy by (intro mult_right_mono) simp_all
    have "ilog2 x + 1 \<le> ex + 53" by (simp add: ex_def)
    then have "(2::rat) powi (ilog2 x + 1) \<le> 2 powi (ex + 53)"
      by (intro power_int_increasing) simp_all
    then have "x \<le> 2 powi (ex + 53)"
      using ilog2_bounds(2) [OF assms(1)] by simp
    also have "\<dots> = 2 powi (53 + ex)" by (simp add: add.commute)
    also have "\<dots> = 2 powi 53 * 2 powi ex"
      by (rule power_int_add) simp
    finally have "x / 2 powi ex \<le> 2 powi 53"
      by (simp only: pos_divide_le_eq zero_less_power_int zero_less_numeral)
    then have "x / 2 powi ex \<le> of_int (2 ^ 53)" by simp
    then have "round_even (x / 2 powi ex) \<le> 2 ^ 53" by (rule round_even_le)
    then have "(of_int (round_even (x / 2 powi ex)) :: rat) \<le> of_int (2 ^ 53)"
      by (simp only: of_int_le_iff)
    then have "fl_pos x \<le> 2 ^ 53 * 2 powi ex"
      unfolding fx by (intro mult_right_mono) simp_all
    also have "\<dots> = 2 ^ 52 * 2 powi (ex + 1)"
      by (simp add: power_int_add_1)
    also have "\<dots> \<le> 2 ^ 52 * 2 powi ey"
      using lt by (intro mult_left_mono power_int_increasing) simp_all
    finally show ?thesis using ylow by simp
  qed
qed

lemma fl_mono:
  assumes "x \<le> y"
  shows "js_le (fl x) (fl y)"
proof -
  consider "0 < x" | "x = 0" "0 < y" | "x = 0" "y = 0" | "x < 0" "0 \<le> y" | "x < 0" "y < 0"
    using assms by linarith
  then show ?thesis
  proof cases
    case 1
    then have "fl_pos \<bar>x\<bar> \<le> fl_pos \<bar>y\<bar>"
      using assms fl_pos_mono [of x y] by simp
    then show ?thesis using 1 assms by (simp add: fl_def Let_def)
  next
    case 2
    then show ?thesis using fl_pos_nonneg [of "\<bar>y\<bar>"] by (simp add: fl_def Let_def)
  next
    case 3
    then show ?thesis by (simp add: fl_def)
  next
    case 4
    then show ?thesis
      using fl_pos_nonneg [of "\<bar>y\<bar>"] fl_pos_nonneg [of "\<bar>x\<bar>"]
      by (simp add: fl_def Let_def)
  next
    case 5
    then have "fl_pos \<bar>y\<bar> \<le> fl_pos \<bar>x\<bar>"
      using assms fl_pos_mono [of "- y" "- x"] by simp
    then show ?thesis using 5 by (simp add: fl_def Let_def)
  qed
qed

lemma fl_eqI:
  assumes "0 < x" "2 powi k \<le> x" "x < 2 powi (k + 1)"
    and "round_even (x / 2 powi (max (k - 52) (- 1074))) = m"
    and "r = of_int m * 2 powi (max (k - 52) (- 1074))"
    and "r < 2 powi 1024"
  shows "fl x = Num r"
proof -
  have "ilog2 x = k" using assms(1-3) by (rule ilog2_unique)
  then have "fl_pos x = r"
    using assms(4,5) by (simp add: fl_pos_def Let_def)
  then show ?thesis using assms(1,6) by (simp add: fl_def Let_def)
qed

lemma round_even_tieI:
  assumes "q = of_int m - 1 / 2 \<or> q = of_int m + 1 / 2" "even m"
  shows "round_even q = m"
proof -
  from assms(1) show ?thesis
  proof
    assume q: "q = of_int m - 1 / 2"
    have "\<lfloor>q\<rfloor> = m - 1" unfolding q by (rule floor_unique) simp_all
    then show ?thesis using assms(2) q by (simp add: round_even_def Let_def)
  next
    assume q: "q = of_int m + 1 / 2"
    have "\<lfloor>q\<rfloor> = m" unfolding q by (rule floor_unique) simp_all
    then show ?thesis using assms(2) q by (simp add: round_even_def Let_def)
  qed
qed

lemma fl_pos_exact:
  assumes "x / 2 powi (max (ilog2 x - 52) (- 1074)) = of_int N"
  shows "fl_pos x = x"
proof -
  have "fl_pos x = x / 2 powi (max (ilog2 x - 52) (- 1074)) * 2 powi (max (ilog2 x - 52) (- 1074))"
    unfolding fl_pos_def Let_def assms by simp
  then show ?thesis by simp
qed

lemma fl_of_int:
  assumes "0 < n" "n < 2 ^ 53"
  shows "fl (of_int n) = Num (of_int n)"
proof -
  define x :: rat where "x = of_int n"
  define k where "k = ilog2 x"
  have x: "0 < x" using assms by (simp add: x_def)
  have "(1::rat) \<le> x" using assms by (simp add: x_def)
  then have "(2::rat) powi 0 < 2 powi (k + 1)"
    using ilog2_bounds(2) [OF x] by (simp add: k_def)
  then have "0 < k + 1" by (rule powi_less_exp)
  then have k0: "0 \<le> k" by simp
  have "of_int n < (of_int (2 ^ 53) :: rat)"
    using assms(2) by (simp only: of_int_less_iff)
  then have x53: "x < 2 powi 53" by (simp add: x_def)
  then have "(2::rat) powi k < 2 powi 53"
    using ilog2_bounds(1) [OF x] by (simp add: k_def)
  then have "k < 53" by (rule powi_less_exp)
  then have k52: "0 \<le> 52 - k" by simp
  have e: "max (k - 52) (- 1074) = - (52 - k)" using k0 by simp
  have "(2::rat) powi (- (52 - k)) = inverse (2 powi (52 - k))"
    by (rule power_int_minus)
  then have "x / 2 powi (- (52 - k)) = x * 2 powi (52 - k)"
    by (simp only: divide_inverse inverse_inverse_eq)
  also have "\<dots> = of_int n * of_int (2 ^ nat (52 - k))"
    using k52 by (simp add: power_int_def x_def)
  also have "\<dots> = of_int (n * 2 ^ nat (52 - k))" by simp
  finally have "x / 2 powi (max (ilog2 x - 52) (- 1074)) = of_int (n * 2 ^ nat (52 - k))"
    using e by (simp add: k_def)
  then have "fl_pos x = x" by (rule fl_pos_exact)
  moreover have "x < 2 powi 1024"
  proof -
    have "(2::rat) powi 53 \<le> 2 powi 1024" by (intro power_int_increasing) simp_all
    then show ?thesis using x53 by linarith
  qed
  ultimately have "fl x = Num x" using x by (simp add: fl_def Let_def)
  then show ?thesis by (simp add: x_def)
qed

lemma fl_numeral: "(numeral w :: int) < 2 ^ 53 \<Longrightarrow> fl (numeral w) = Num (numeral w)"
  using fl_of_int [of "numeral w"] by simp

lemma fl_one: "fl 1 = Num 1"
  using fl_of_int [of 1] by simp

lemma fl_pos_pos_cases:
  assumes "0 < x"
  defines "e \<equiv> max (ilog2 x - 52) (- 1074)"
  defines "m \<equiv> round_even (x / 2 powi e)"
  shows "fl_pos x = of_int m * 2 powi e" "0 \<le> m" "m \<le> 2 ^ 53"
    "- 1074 < e \<Longrightarrow> 2 ^ 52 \<le> m"
proof -
  show "fl_pos x = of_int m * 2 powi e"
    by (simp add: fl_pos_def e_def m_def Let_def)
  have "0 \<le> x / 2 powi e" using assms(1) by simp
  then show "0 \<le> m" unfolding m_def using round_even_ge [of 0] by simp
  have "ilog2 x + 1 \<le> e + 53" by (simp add: e_def)
  then have "(2::rat) powi (ilog2 x + 1) \<le> 2 powi (e + 53)"
    by (intro power_int_increasing) simp_all
  then have "x \<le> 2 powi (e + 53)"
    using ilog2_bounds(2) [OF assms(1)] by simp
  also have "\<dots> = 2 powi (53 + e)" by (simp add: add.commute)
  also have "\<dots> = 2 powi 53 * 2 powi e"
    by (rule power_int_add) simp
  finally have "x / 2 powi e \<le> 2 powi 53"
    by (simp only: pos_divide_le_eq zero_less_power_int zero_less_numeral)
  then have "x / 2 powi e \<le> of_int (2 ^ 53)" by simp
  then show "m \<le> 2 ^ 53" unfolding m_def by (rule round_even_le)
  assume "- 1074 < e"
  then have ee: "e = ilog2 x - 52" by (simp add: e_def)
  have "(2::rat) powi 52 * 2 powi e = 2 powi (52 + e)"
    by (rule power_int_add [symmetric]) simp
  also have "52 + e = ilog2 x" by (simp add: ee)
  also have "2 powi (ilog2 x) \<le> x" using ilog2_bounds(1) [OF assms(1)] .
  finally have "(2::rat) powi 52 \<le> x / 2 powi e"
    by (simp only: pos_le_divide_eq zero_less_power_int zero_less_numeral)
  then have "(of_int (2 ^ 52) :: rat) \<le> x / 2 powi e" by simp
  then show "2 ^ 52 \<le> m" unfolding m_def by (rule round_even_ge)
qed

lemma fl_pos_exactI:
  assumes "0 < r" "2 powi k \<le> r" "r < 2 powi (k + 1)"
    and "r / 2 powi (max (k - 52) (- 1074)) = of_int N"
  shows "fl_pos r = r"
proof -
  have "ilog2 r = k" using assms(1-3) by (rule ilog2_unique)
  then show ?thesis using assms(4) fl_pos_exact [of r N] by simp
qed

lemma fl_pos_idem:
  assumes "0 < x"
  shows "fl_pos (fl_pos x) = fl_pos x"
proof -
  define e where "e = max (ilog2 x - 52) (- 1074)"
  define m where "m = round_even (x / 2 powi e)"
  note c = fl_pos_pos_cases [OF assms, folded e_def m_def]
  define r where "r = fl_pos x"
  have r: "r = of_int m * 2 powi e" using c(1) by (simp add: r_def)
  show ?thesis
  proof (cases "m = 0")
    case True
    then have z: "fl_pos x = 0" using r by (simp add: r_def)
    have "fl_pos 0 = 0"
      using round_even_of_int [of 0] by (simp add: fl_pos_def Let_def)
    then show ?thesis unfolding z .
  next
    case False
    then have mpos: "0 < m" using c(2) by simp
    then have rpos: "0 < r" using r by simp
    have e1074: "- 1074 \<le> e" by (simp add: e_def)
    consider (top) "m = 2 ^ 53" | (normal) "2 ^ 52 \<le> m" "m < 2 ^ 53" | (sub) "m < 2 ^ 52"
      using c(3) by linarith
    then have "fl_pos r = r"
    proof cases
      case top
      have rr: "r = 2 powi (e + 53)"
        unfolding r top by (simp add: power_int_add add.commute)
      have "r / 2 powi (max ((e + 53) - 52) (- 1074)) = of_int (2 ^ 52)"
      proof -
        have "max ((e + 53) - 52) (- 1074) = e + 1" using e1074 by simp
        moreover have "(2::rat) powi (e + 53) / 2 powi (e + 1) = 2 powi ((e + 53) - (e + 1))"
          by (rule power_int_diff [symmetric]) simp
        ultimately show ?thesis unfolding rr by simp
      qed
      moreover have "2 powi (e + 53) \<le> r" "r < 2 powi ((e + 53) + 1)"
        unfolding rr by (simp_all add: power_int_strict_increasing)
      ultimately show ?thesis using rpos by (intro fl_pos_exactI [where k = "e + 53" and N = "2 ^ 52"]) 
    next
      case normal
      have lo: "2 powi (e + 52) \<le> r"
      proof -
        have "(2::rat) powi (e + 52) = of_int (2 ^ 52) * 2 powi e"
          by (simp add: power_int_add add.commute)
        also have "\<dots> \<le> of_int m * 2 powi e"
          using normal(1) by (intro mult_right_mono) (simp_all only: of_int_le_iff, simp)
        finally show ?thesis by (simp add: r)
      qed
      have hi: "r < 2 powi ((e + 52) + 1)"
      proof -
        have "of_int m * 2 powi e < (of_int (2 ^ 53) :: rat) * 2 powi e"
          using normal(2) by (intro mult_strict_right_mono) (simp_all only: of_int_less_iff, simp)
        also have "\<dots> = 2 powi ((e + 52) + 1)"
          by (simp add: power_int_add add.commute)
        finally show ?thesis by (simp add: r)
      qed
      have "max ((e + 52) - 52) (- 1074) = e" using e1074 by simp
      then have "r / 2 powi (max ((e + 52) - 52) (- 1074)) = of_int m"
        by (simp add: r)
      then show ?thesis using rpos lo hi by (intro fl_pos_exactI [where k = "e + 52" and N = m])
    next
      case sub
      then have e: "e = - 1074" using c(4) e1074 by fastforce
      have "r < of_int (2 ^ 52) * 2 powi e"
        unfolding r using sub by (intro mult_strict_right_mono) (simp_all only: of_int_less_iff, simp)
      also have "\<dots> = 2 powi (52 + e)"
        by (simp add: power_int_add)
      finally have "2 powi (ilog2 r) < (2::rat) powi (52 + e)"
        using ilog2_bounds(1) [OF rpos] by linarith
      then have "ilog2 r < 52 + e" by (rule powi_less_exp)
      then have "max (ilog2 r - 52) (- 1074) = e" using e by simp
      then have "r / 2 powi (max (ilog2 r - 52) (- 1074)) = of_int m"
        by (simp add: r)
      then show ?thesis by (rule fl_pos_exact)
    qed
    then show ?thesis by (simp add: r_def)
  qed
qed

lemma fl_idem:
  assumes "fl x = Num r"
  shows "fl r = Num r"
proof (cases "x = 0")
  case True
  then show ?thesis using assms by (simp add: fl_def)
next
  case False
  define p where "p = fl_pos \<bar>x\<bar>"
  have ax: "0 < \<bar>x\<bar>" using False by simp
  have small: "p < 2 powi 1024" and r: "r = (if 0 < x then p else - p)"
    using assms False by (auto simp: fl_def Let_def p_def split: if_splits)
  have idem: "fl_pos p = p" unfolding p_def using ax by (rule fl_pos_idem)
  have p0: "0 \<le> p" unfolding p_def by (rule fl_pos_nonneg) simp
  show ?thesis
  proof (cases "p = 0")
    case True
    then show ?thesis using r by (simp add: fl_def)
  next
    case False
    then have "0 < p" using p0 by simp
    then show ?thesis using r idem small by (simp add: fl_def Let_def)
  qed
qed

subsection \<open>Operators on rounded numbers\<close>

lemma fl_cases: "(\<exists>r. fl x = Num r) \<or> fl x = PInf \<or> fl x = NInf"
  by (simp add: fl_def Let_def)

lemma fl_zero [simp]: "fl 0 = Num 0"
  by (simp add: fl_def)

lemma fl_neg: "fl (- x) = js_neg (fl x)"
  by (simp add: fl_def Let_def)

lemma is_double_fl: "fl x = Num r \<Longrightarrow> is_double r"
  unfolding is_double_def by (rule fl_idem)

lemma is_double_zero [simp]: "is_double 0"
  by (simp add: is_double_def)

lemma is_double_numeral: "(numeral w :: int) < 2 ^ 53 \<Longrightarrow> is_double (numeral w)"
  by (simp add: is_double_def fl_numeral)

lemma is_double_neg: "is_double r \<Longrightarrow> is_double (- r)"
  by (simp add: is_double_def fl_neg)

lemma is_double_abs: "is_double r \<Longrightarrow> is_double \<bar>r\<bar>"
  by (simp add: abs_if is_double_neg)

lemma fl_bounded:
  assumes "is_double c" "\<bar>x\<bar> \<le> \<bar>c\<bar>"
  shows "\<exists>r. fl x = Num r \<and> \<bar>r\<bar> \<le> \<bar>c\<bar>"
proof -
  have up: "fl \<bar>c\<bar> = Num \<bar>c\<bar>"
    using is_double_abs [OF assms(1)] by (simp add: is_double_def)
  have lo: "fl (- \<bar>c\<bar>) = Num (- \<bar>c\<bar>)"
    using is_double_neg [OF is_double_abs [OF assms(1)]] by (simp add: is_double_def)
  have "js_le (fl x) (fl \<bar>c\<bar>)" "js_le (fl (- \<bar>c\<bar>)) (fl x)"
    using assms(2) by (intro fl_mono; linarith)+
  then show ?thesis
    unfolding up lo using fl_cases [of x] by auto
qed

lemma js_add_zero: "is_double a \<Longrightarrow> js_add (Num a) (Num 0) = Num a"
  by (simp add: is_double_def)

lemma js_add_fl_zero: "js_add (fl x) (Num 0) = fl x"
  using fl_cases [of x] fl_idem [of x] by auto

lemma js_le_NInf_fl [simp]: "js_le NInf (fl z)"
  using fl_cases [of z] by auto

lemma js_le_fl_PInf [simp]: "js_le (fl z) PInf"
  using fl_cases [of z] by auto

lemma js_add_mono:
  assumes "js_le x y"
  shows "js_le (js_add (Num a) x) (js_add (Num a) y)"
proof (cases x)
  case (Num p)
  show ?thesis
  proof (cases y)
    case (Num q)
    then show ?thesis using assms \<open>x = Num p\<close> by (simp add: fl_mono)
  next
    case PInf
    then show ?thesis using \<open>x = Num p\<close> by simp
  qed (use assms \<open>x = Num p\<close> in simp_all)
next
  case NInf
  then show ?thesis using assms by (cases y) simp_all
next
  case PInf
  then show ?thesis using assms by (cases y) auto
qed (use assms in simp_all)

lemma js_sub_Num [simp]: "js_sub (Num a) (Num b) = fl (a - b)"
  by (simp add: js_sub_def)

lemma js_sub_finite:
  assumes "js_sub e s = Num c"
  shows "\<exists>a b. s = Num a \<and> e = Num b"
  using assms by (cases e; cases s) (simp_all add: js_sub_def)

subsection \<open>The roundings that occur in the scenarios\<close>

lemma fl_half: "fl (1 / 2) = Num (1 / 2)"
  apply (rule fl_eqI [where k = "- 1" and m = 4503599627370496])
       apply simp_all
  apply (rule round_even_eqI)
  apply simp
  done

lemma fl_five_halves: "fl (5 / 2) = Num (5 / 2)"
  apply (rule fl_eqI [where k = "1" and m = 5629499534213120])
       apply simp_all
  apply (rule round_even_eqI)
  apply simp
  done

lemma fl_three_halves: "fl (3 / 2) = Num (3 / 2)"
  apply (rule fl_eqI [where k = "0" and m = 6755399441055744])
       apply simp_all
  apply (rule round_even_eqI)
  apply simp
  done

lemma fl_nine_halves: "fl (9 / 2) = Num (9 / 2)"
  apply (rule fl_eqI [where k = "2" and m = 5066549580791808])
       apply simp_all
  apply (rule round_even_eqI)
  apply simp
  done

lemma fl_two_fifths: "fl (2 / 5) = Num (3602879701896397 / 9007199254740992)"
  apply (rule fl_eqI [where k = "- 2" and m = 7205759403792794])
       apply simp_all
  apply (rule round_even_eqI)
  apply simp
  done

lemma fl_demo_step_1: "fl (3602879701896397 / 9007199254740992) = Num (3602879701896397 / 9007199254740992)"
  apply (rule fl_eqI [where k = "- 2" and m = 7205759403792794])
       apply simp_all
  apply (rule round_even_eqI)
  apply simp
  done

lemma fl_demo_step_2: "fl (3602879701896397 / 4503599627370496) = Num (3602879701896397 / 4503599627370496)"
  apply (rule fl_eqI [where k = "- 1" and m = 7205759403792794])
       apply simp_all
  apply (rule round_even_eqI)
  apply simp
  done

lemma fl_demo_step_3: "fl (10808639105689191 / 9007199254740992) = Num (1351079888211149 / 1125899906842624)"
  apply (rule fl_eqI [where k = "0" and m = 5404319552844596])
       apply simp_all
  apply (rule round_even_tieI)
   apply simp_all
  done

lemma fl_demo_step_4: "fl (3602879701896397 / 2251799813685248) = Num (3602879701896397 / 2251799813685248)"
  apply (rule fl_eqI [where k = "0" and m = 7205759403792794])
       apply simp_all
  apply (rule round_even_eqI)
  apply simp
  done

lemma fl_demo_step_5: "fl (18014398509481985 / 9007199254740992) = Num (2)"
  apply (rule fl_eqI [where k = "1" and m = 4503599627370496])
       apply simp_all
  apply (rule round_even_eqI)
  apply simp
  done

lemma fl_demo_step_6: "fl (10808639105689191 / 4503599627370496) = Num (1351079888211149 / 562949953421312)"
  apply (rule fl_eqI [where k = "1" and m = 5404319552844596])
       apply simp_all
  apply (rule round_even_tieI)
   apply simp_all
  done

lemma fl_nine_tenths_lit: "fl (9 / 10) = Num (8106479329266893 / 9007199254740992)"
  apply (rule fl_eqI [where k = "- 1" and m = 8106479329266893])
       apply simp_all
  apply (rule round_even_eqI)
  apply simp
  done

lemma fl_nine_tenths_val: "fl (8106479329266893 / 9007199254740992) = Num (8106479329266893 / 9007199254740992)"
  apply (rule fl_eqI [where k = "- 1" and m = 8106479329266893])
       apply simp_all
  apply (rule round_even_eqI)
  apply simp
  done

lemma fl_tenths_duration: "fl (8106479329266893 / 27021597764222976) = Num (5404319552844595 / 18014398509481984)"
  apply (rule fl_eqI [where k = "- 2" and m = 5404319552844595])
       apply simp_all
  apply (rule round_even_eqI)
  apply simp
  done

lemma fl_tenths_1: "fl (5404319552844595 / 18014398509481984) = Num (5404319552844595 / 18014398509481984)"
  apply (rule fl_eqI [where k = "- 2" and m = 5404319552844595])
       apply simp_all
  apply (rule round_even_eqI)
  apply simp
  done

lemma fl_tenths_2: "fl (5404319552844595 / 9007199254740992) = Num (5404319552844595 / 9007199254740992)"
  apply (rule fl_eqI [where k = "- 1" and m = 5404319552844595])
       apply simp_all
  apply (rule round_even_eqI)
  apply simp
  done

lemma fl_tenths_3: "fl (16212958658533785 / 18014398509481984) = Num (2026619832316723 / 2251799813685248)"
  apply (rule fl_eqI [where k = "- 1" and m = 8106479329266892])
       apply simp_all
  apply (rule round_even_tieI)
   apply simp_all
  done

lemma fl_tenths_end: "fl (2026619832316723 / 2251799813685248) = Num (2026619832316723 / 2251799813685248)"
  apply (rule fl_eqI [where k = "- 1" and m = 8106479329266892])
       apply simp_all
  apply (rule round_even_eqI)
  apply simp
  done

lemma fl_third: "fl (1 / 3) = Num (6004799503160661 / 18014398509481984)"
  apply (rule fl_eqI [where k = "- 2" and m = 6004799503160661])
       apply simp_all
  apply (rule round_even_eqI)
  apply simp
  done

lemma fl_third_val: "fl (6004799503160661 / 18014398509481984) = Num (6004799503160661 / 18014398509481984)"
  apply (rule fl_eqI [where k = "- 2" and m = 6004799503160661])
       apply simp_all
  apply (rule round_even_eqI)
  apply simp
  done

lemma fl_second_1: "fl (24019198012642645 / 18014398509481984) = Num (6004799503160661 / 4503599627370496)"
  apply (rule fl_eqI [where k = "0" and m = 6004799503160661])
       apply simp_all
  apply (rule round_even_eqI)
  apply simp
  done

lemma fl_second_2: "fl (30023997515803305 / 18014398509481984) = Num (3752999689475413 / 2251799813685248)"
  apply (rule fl_eqI [where k = "0" and m = 7505999378950826])
       apply simp_all
  apply (rule round_even_eqI)
  apply simp
  done

lemma fl_second_3: "fl (6004799503160661 / 9007199254740992) = Num (6004799503160661 / 9007199254740992)"
  apply (rule fl_eqI [where k = "- 1" and m = 6004799503160661])
       apply simp_all
  apply (rule round_even_eqI)
  apply simp
  done

lemma fl_second_4: "fl (15011998757901653 / 9007199254740992) = Num (3752999689475413 / 2251799813685248)"
  apply (rule fl_eqI [where k = "0" and m = 7505999378950826])
       apply simp_all
  apply (rule round_even_tieI)
   apply simp_all
  done

lemma fl_second_5: "fl (36028797018963965 / 18014398509481984) = Num (9007199254740991 / 4503599627370496)"
  apply (rule fl_eqI [where k = "0" and m = 9007199254740991])
       apply simp_all
  apply (rule round_even_eqI)
  apply simp
  done

section \<open>Properties of the timeline resolver\<close>

lemma js_span_iff:
  "js_ge (Num t) a \<and> js_le (Num t) b \<longleftrightarrow>
     (case (a, b) of
        (Num s, Num e) \<Rightarrow> s \<le> t \<and> t \<le> e
      | (Num s, PInf) \<Rightarrow> s \<le> t
      | (NInf, Num e) \<Rightarrow> t \<le> e
      | (NInf, PInf) \<Rightarrow> True
      | _ \<Rightarrow> False)"
  by (cases a; cases b) (auto simp: js_ge_def)

lemma activeCaptions_filter: "activeCaptions cs t = filter (\<lambda>c. cue_spans c t) cs"
  by (simp add: activeCaptions_def cue_spans_def js_span_iff)

text \<open>
  C4. The active-cue query returns exactly the cues with \<open>startSec <= t <= endSec\<close>, both
  ends inclusive, in transcript order. It is a function of the transcript and the time,
  asking again over its own result changes nothing, it is empty when \<open>t\<close> is outside every
  span, and two cues that touch at \<open>t\<close> are both active at \<open>t\<close>.
\<close>

theorem activeCaptions_exact:
  "activeCaptions cs t = filter (\<lambda>c. cue_spans c t) cs
   \<and> subseq (activeCaptions cs t) cs
   \<and> set (activeCaptions cs t) = {c \<in> set cs. cue_spans c t}
   \<and> activeCaptions (activeCaptions cs t) t = activeCaptions cs t
   \<and> ((\<forall>c \<in> set cs. \<not> cue_spans c t) \<longrightarrow> activeCaptions cs t = [])
   \<and> (a \<in> set cs \<and> b \<in> set cs \<and> c_start a = Num s \<and> c_end a = Num t \<and> s \<le> t
        \<and> c_start b = Num t \<and> c_end b = Num e \<and> t \<le> e
        \<longrightarrow> a \<in> set (activeCaptions cs t) \<and> b \<in> set (activeCaptions cs t))"
  by (auto simp: activeCaptions_filter cue_spans_def)

theorem activeCaptions_exact_witness:
  "\<not> cue_spans cueA 7 \<and> \<not> cue_spans cueB 7 \<and> activeCaptions [cueA, cueB] 7 = []
   \<and> cueA \<in> set [cueA, cueB] \<and> cueB \<in> set [cueA, cueB]
   \<and> c_start cueA = Num 0 \<and> c_end cueA = Num 3 \<and> (0::rat) \<le> 3
   \<and> c_start cueB = Num 3 \<and> c_end cueB = Num 6 \<and> (3::rat) \<le> 6
   \<and> cueA \<in> set (activeCaptions [cueA, cueB] 3) \<and> cueB \<in> set (activeCaptions [cueA, cueB] 3)
   \<and> activeCaptions [cueA, cueB] 3 = [cueA, cueB]
   \<and> activeCaptions [cueA, cueB] 4 = [cueB]"
  using activeCaptions_exact [of "[cueA, cueB]" 3 cueA cueB 0 6]
        activeCaptions_exact [of "[cueA, cueB]" 7 cueA cueB 0 6]
        activeCaptions_exact [of "[cueA, cueB]" 4 cueA cueB 0 6]
  by (simp add: cue_spans_def cueA_def cueB_def)

lemma interpolate_spoken: "interpolate 2 (Num 1) (Num 3) = Inr (Num (1 / 2))"
  by (simp add: interpolate_def fl_one fl_numeral fl_half)

text \<open>
  C10. An active-word state exists only when the preset style is exactly \<open>'karaoke'\<close> and
  at least one cue is active; otherwise the result is none. When it is computed, only
  the first active cue matters: the cues after it do not influence the result.
\<close>

theorem currentWordData_gate:
  "(style \<noteq> Some (ascii ''karaoke'') \<or> activeCaptions cs t = []
      \<longrightarrow> currentWordData style (activeCaptions cs t) t = Inr None)
   \<and> (currentWordData style (activeCaptions cs t) t \<noteq> Inr None
      \<longrightarrow> style = Some (ascii ''karaoke'') \<and> activeCaptions cs t \<noteq> [])
   \<and> (activeCaptions cs t = c # rest
      \<longrightarrow> currentWordData style (activeCaptions cs t) t = currentWordData style [c] t)
   \<and> currentWordData style (c # rest) t = currentWordData style (c # rest') t"
  by (auto simp: currentWordData_def)

theorem currentWordData_gate_witness:
  "Some (ascii ''top-bar'') \<noteq> Some (ascii ''karaoke'')
   \<and> currentWordData (Some (ascii ''top-bar'')) (activeCaptions [spoken_cue, cueA] 2) 2 = Inr None
   \<and> activeCaptions [spoken_cue, cueA] 9 = []
   \<and> currentWordData (Some (ascii ''karaoke'')) (activeCaptions [spoken_cue, cueA] 9) 9 = Inr None
   \<and> activeCaptions [spoken_cue, cueA] 2 = spoken_cue # [cueA]
   \<and> currentWordData (Some (ascii ''karaoke'')) (activeCaptions [spoken_cue, cueA] 2) 2
       = currentWordData (Some (ascii ''karaoke'')) [spoken_cue] 2
   \<and> currentWordData (Some (ascii ''karaoke'')) [spoken_cue] 2 \<noteq> Inr None
   \<and> currentWordData (Some (ascii ''karaoke'')) [spoken_cue] 2
       = Inr (Some \<lparr>wd_word = spoken_word, wd_progress = Num (1 / 2)\<rparr>)"
  using currentWordData_gate [of "Some (ascii ''top-bar'')" "[spoken_cue, cueA]" 2 spoken_cue "[cueA]" "[]"]
        currentWordData_gate [of "Some (ascii ''karaoke'')" "[spoken_cue, cueA]" 9 spoken_cue "[cueA]" "[]"]
        currentWordData_gate [of "Some (ascii ''karaoke'')" "[spoken_cue, cueA]" 2 spoken_cue "[cueA]" "[]"]
  by (simp add: activeCaptions_def spoken_cue_def cueA_def ascii_def currentWordData_def
      spoken_word_def word_active_def js_ge_def interpolate_spoken)

lemma interpolate_equal_ends: "interpolate t a a = Inl JsError"
  by (cases a) (simp_all add: interpolate_def)

text \<open>
  C5. The claim asks for progress \<open>1\<close> and no error on a word whose start equals its end.
  The code does otherwise. With the karaoke style and the cue first among the active
  ones, whenever the word found at \<open>t\<close> has \<open>start = end\<close> the call of \<open>interpolate\<close> on the
  range \<open>[start, start]\<close> throws, and so does \<open>currentWordData\<close>: no state is returned. So it
  is for the word with \<open>start = 2.0\<close>, \<open>end = 2.0\<close> queried at \<open>2.0\<close>.
\<close>

theorem zero_length_word_throws:
  "(style = Some (ascii ''karaoke'') \<and> c_words c = Some ws
      \<and> find (word_active t) ws = Some w \<and> w_start w = w_end w
      \<longrightarrow> currentWordData style (c # rest) t = Inl JsError)
   \<and> activeCaptions [instant_cue] 2 = [instant_cue]
   \<and> find (word_active 2) (cue_words instant_cue) = Some instant_word
   \<and> currentWordData (Some (ascii ''karaoke'')) (activeCaptions [instant_cue] 2) 2 = Inl JsError
   \<and> currentWordData (Some (ascii ''karaoke'')) (activeCaptions [instant_cue] 2) 2
       \<noteq> Inr (Some \<lparr>wd_word = instant_word, wd_progress = Num 1\<rparr>)"
  by (simp add: currentWordData_def interpolate_equal_ends activeCaptions_def instant_cue_def
      instant_word_def word_active_def js_ge_def cue_words_def)

theorem zero_length_word_throws_witness:
  "c_words instant_cue = Some [instant_word]
   \<and> find (word_active 2) [instant_word] = Some instant_word
   \<and> w_start instant_word = w_end instant_word
   \<and> currentWordData (Some (ascii ''karaoke'')) [instant_cue, cueA] 2 = Inl JsError"
  using zero_length_word_throws
    [of "Some (ascii ''karaoke'')" instant_cue "[instant_word]" 2 instant_word "[cueA]"]
  by (simp add: instant_cue_def instant_word_def word_active_def js_ge_def)

section \<open>Properties of the script classifier\<close>

lemma code_points_range:
  "(\<exists>cp \<in> set (code_points s). 0x900 \<le> cp \<and> cp \<le> 0x97F)
   \<longleftrightarrow> (\<exists>u \<in> set s. 0x900 \<le> u \<and> u \<le> 0x97F)"
  by (induction s rule: code_points.induct) auto

text \<open>
  C9. The classifier flags a text exactly when it contains a code point of the
  Devanagari block U+0900 to U+097F; the flag selects the mixed-script font family and
  its absence the latin one. The scenario's two strings classify as mixed-script and
  latin-only.
\<close>

theorem containsHindi_iff_devanagari:
  "(containsHindi text \<longleftrightarrow> (\<exists>cp \<in> set (code_points text). 0x900 \<le> cp \<and> cp \<le> 0x97F))
   \<and> (fontFamily text = hinglish \<longleftrightarrow> containsHindi text)
   \<and> (fontFamily text = english \<longleftrightarrow> \<not> containsHindi text)
   \<and> containsHindi yah_ek_test
   \<and> \<not> containsHindi (ascii ''hello world'')"
  by (simp add: code_points_range fontFamily_def)
    (simp add: containsHindi_def list_ex_iff yah_ek_test_def ascii_def)

theorem containsHindi_iff_devanagari_witness:
  "containsHindi [0x915] \<and> (\<exists>cp \<in> set (code_points [0x915]). 0x900 \<le> cp \<and> cp \<le> 0x97F)
   \<and> fontFamily [0x915] = hinglish
   \<and> \<not> containsHindi [0xD83D, 0xDE00] \<and> fontFamily [0xD83D, 0xDE00] = english
   \<and> code_points [0xD83D, 0xDE00] = [0x1F600]"
  using containsHindi_iff_devanagari [of "[0x915]"]
        containsHindi_iff_devanagari [of "[0xD83D, 0xDE00]"]
  by simp

section \<open>Properties of the word-window normalizer\<close>

lemma ceiling_window_count:
  "nat \<lceil>(of_nat n :: rat) / of_nat wordsPerSegment\<rceil> = (n + 7) div 8"
proof -
  have "\<lceil>(of_int (int n) :: rat) / of_int 8\<rceil> = - (- int n div 8)"
    by (rule ceiling_divide_eq_div)
  also have "\<dots> = (int n + 7) div 8" by linarith
  finally have "\<lceil>(of_nat n :: rat) / 8\<rceil> = int ((n + 7) div 8)"
    by (simp add: zdiv_int)
  then show ?thesis by (simp add: wordsPerSegment_def)
qed

lemma map_err_all_Inr:
  "(\<And>x. x \<in> set xs \<Longrightarrow> f x = Inr (g x)) \<Longrightarrow> map_err f xs = Inr (map g xs)"
  by (induction xs) auto

lemma window_nonempty: "k < (length ws + 7) div 8 \<Longrightarrow> window ws k \<noteq> []"
  by (auto simp: window_def)

lemma window_cue_Inr:
  assumes "k < (length ws + 7) div 8"
  shows "window_cue ws k = Inr (window_cue_of ws k)"
proof -
  obtain w0 rest where w: "window ws k = w0 # rest"
    using window_nonempty [OF assms] by (cases "window ws k") auto
  then have "take wordsPerSegment (drop (k * wordsPerSegment) ws) = w0 # rest"
    by (simp add: window_def wordsPerSegment_def mult.commute)
  then show ?thesis
    using w by (simp add: window_cue_def window_cue_of_def)
qed

lemma concat_windows:
  "concat (map (window ws) [0..<m]) = take (8 * m) ws"
proof (induction m)
  case 0
  then show ?case by simp
next
  case (Suc m)
  have "take (8 * Suc m) ws = take (8 * m) ws @ take 8 (drop (8 * m) ws)"
    by (simp add: take_add [symmetric] add.commute)
  then show ?case using Suc by (simp add: window_def)
qed

lemma processTranscription_eq:
  assumes "t_words t = Some ws" and "ws \<noteq> []"
  shows "processTranscription (JObject t) = Inr (map (window_cue_of ws) [0..<(length ws + 7) div 8])"
proof -
  have "map_err (window_cue ws) [0..<(length ws + 7) div 8]
        = Inr (map (window_cue_of ws) [0..<(length ws + 7) div 8])"
    by (rule map_err_all_Inr) (simp add: window_cue_Inr)
  then show ?thesis
    using assms by (simp add: processTranscription_def ceiling_window_count)
qed

lemma length_window_full:
  "k + 1 < (length ws + 7) div 8 \<Longrightarrow> length (window ws k) = 8"
  by (auto simp: window_def)

text \<open>
  C1. For a non-empty list of timestamped words \<open>processTranscription\<close> returns one cue per
  window of eight consecutive words in input order; only the last window may be
  shorter. Cue \<open>k\<close> (counted from 0) has id \<open>k + 1\<close>, the start of its window's first word,
  the end of its window's last word, the window's word texts joined by single spaces
  and trimmed, and the window itself as its words. The cues' word lists concatenate to
  the input, and seventeen words give three cues with ids 1, 2, 3 and sizes 8, 8, 1.
\<close>

theorem processTranscription_windows:
  assumes "t_words t = Some ws" and "ws \<noteq> []"
  shows "\<exists>cs. processTranscription (JObject t) = Inr cs
     \<and> length cs = (length ws + 7) div 8
     \<and> (\<forall>k < length cs.
          window ws k \<noteq> [] \<and> length (window ws k) \<le> 8
          \<and> (k + 1 < length cs \<longrightarrow> length (window ws k) = 8)
          \<and> c_id (cs ! k) = k + 1
          \<and> c_start (cs ! k) = w_start (hd (window ws k))
          \<and> c_end (cs ! k) = w_end (last (window ws k))
          \<and> c_text (cs ! k) = trim (js_join [SPACE] (map word_text (window ws k)))
          \<and> c_words (cs ! k) = Some (window ws k))
     \<and> concat (map cue_words cs) = ws
     \<and> (length ws = 17 \<longrightarrow> map c_id cs = [1, 2, 3] \<and> map (length \<circ> cue_words) cs = [8, 8, 1])"
proof -
  let ?m = "(length ws + 7) div 8"
  let ?cs = "map (window_cue_of ws) [0..<?m]"
  have eq: "processTranscription (JObject t) = Inr ?cs"
    using assms by (rule processTranscription_eq)
  have len: "length ?cs = ?m" by simp
  have each: "\<forall>k < length ?cs.
          window ws k \<noteq> [] \<and> length (window ws k) \<le> 8
          \<and> (k + 1 < length ?cs \<longrightarrow> length (window ws k) = 8)
          \<and> c_id (?cs ! k) = k + 1
          \<and> c_start (?cs ! k) = w_start (hd (window ws k))
          \<and> c_end (?cs ! k) = w_end (last (window ws k))
          \<and> c_text (?cs ! k) = trim (js_join [SPACE] (map word_text (window ws k)))
          \<and> c_words (?cs ! k) = Some (window ws k)"
  proof (intro allI impI)
    fix k assume "k < length ?cs"
    then have k: "k < ?m" by simp
    have "length (window ws k) \<le> 8" by (simp add: window_def)
    moreover have "k + 1 < length ?cs \<longrightarrow> length (window ws k) = 8"
      using length_window_full by simp
    ultimately show "window ws k \<noteq> [] \<and> length (window ws k) \<le> 8
          \<and> (k + 1 < length ?cs \<longrightarrow> length (window ws k) = 8)
          \<and> c_id (?cs ! k) = k + 1
          \<and> c_start (?cs ! k) = w_start (hd (window ws k))
          \<and> c_end (?cs ! k) = w_end (last (window ws k))
          \<and> c_text (?cs ! k) = trim (js_join [SPACE] (map word_text (window ws k)))
          \<and> c_words (?cs ! k) = Some (window ws k)"
      using k window_nonempty [OF k] by (simp add: window_cue_of_def)
  qed
  have mw: "map cue_words ?cs = map (window ws) [0..<?m]"
    by (simp add: cue_words_def window_cue_of_def)
  have "length ws \<le> 8 * ?m" by linarith
  then have cat: "concat (map cue_words ?cs) = ws"
    unfolding mw concat_windows by simp
  have sc: "length ws = 17 \<longrightarrow> map c_id ?cs = [1, 2, 3] \<and> map (length \<circ> cue_words) ?cs = [8, 8, 1]"
  proof
    assume n: "length ws = 17"
    have up: "[0..<3] = [0, 1, 2]" by (simp add: upt_rec)
    show "map c_id ?cs = [1, 2, 3] \<and> map (length \<circ> cue_words) ?cs = [8, 8, 1]"
      using n by (simp add: up window_cue_of_def cue_words_def window_def)
  qed
  show ?thesis
    by (rule exI [of _ ?cs]) (intro conjI eq len each cat sc)
qed

theorem processTranscription_windows_witness:
  "t_words (words_only seventeen_words) = Some seventeen_words \<and> seventeen_words \<noteq> []
   \<and> length seventeen_words = 17
   \<and> (\<exists>cs. processTranscription (JObject (words_only seventeen_words)) = Inr cs
        \<and> length cs = 3 \<and> map c_id cs = [1, 2, 3] \<and> map (length \<circ> cue_words) cs = [8, 8, 1]
        \<and> concat (map cue_words cs) = seventeen_words)"
proof -
  have h1: "t_words (words_only seventeen_words) = Some seventeen_words"
    by (simp add: words_only_def)
  have h2: "seventeen_words \<noteq> []"
    by (simp add: seventeen_words_def)
  have h3: "length seventeen_words = 17"
    by (simp add: seventeen_words_def)
  from processTranscription_windows [OF h1 h2]
  obtain cs where a: "processTranscription (JObject (words_only seventeen_words)) = Inr cs"
    and b: "length cs = (length seventeen_words + 7) div 8"
    and c: "concat (map cue_words cs) = seventeen_words"
    and d: "length seventeen_words = 17 \<longrightarrow>
         map c_id cs = [1, 2, 3] \<and> map (length \<circ> cue_words) cs = [8, 8, 1]"
    by (elim exE conjE)
  have e: "length cs = 3" using b h3 by simp
  have f: "map c_id cs = [1, 2, 3] \<and> map (length \<circ> cue_words) cs = [8, 8, 1]"
    using d h3 by simp
  have "processTranscription (JObject (words_only seventeen_words)) = Inr cs
        \<and> length cs = 3 \<and> map c_id cs = [1, 2, 3] \<and> map (length \<circ> cue_words) cs = [8, 8, 1]
        \<and> concat (map cue_words cs) = seventeen_words"
    using a e f c by simp
  then have "\<exists>cs. processTranscription (JObject (words_only seventeen_words)) = Inr cs
        \<and> length cs = 3 \<and> map c_id cs = [1, 2, 3] \<and> map (length \<circ> cue_words) cs = [8, 8, 1]
        \<and> concat (map cue_words cs) = seventeen_words"
    by (rule exI)
  then show ?thesis using h1 h2 h3 by simp
qed

section \<open>Properties of the normalizers on degenerate input\<close>

lemma map_err_exists:
  "(\<And>x. x \<in> set xs \<Longrightarrow> \<exists>y. f x = Inr y) \<Longrightarrow> \<exists>ys. map_err f xs = Inr ys \<and> length ys = length xs"
proof (induction xs)
  case Nil
  then show ?case by simp
next
  case (Cons x xs)
  obtain y where y: "f x = Inr y" using Cons.prems by auto
  obtain ys where ys: "map_err f xs = Inr ys" "length ys = length xs"
    using Cons by auto
  show ?case using y ys by simp
qed

lemma map_err_Inr_nth:
  "map_err f xs = Inr ys \<Longrightarrow> length ys = length xs \<and> (\<forall>i < length xs. f (xs ! i) = Inr (ys ! i))"
proof (induction xs arbitrary: ys)
  case Nil
  then show ?case by simp
next
  case (Cons x xs)
  then obtain y ys' where y: "f x = Inr y" "map_err f xs = Inr ys'" "ys = y # ys'"
    by (auto split: sum.splits)
  then have "length ys' = length xs \<and> (\<forall>i < length xs. f (xs ! i) = Inr (ys' ! i))"
    using Cons.IH by simp
  then show ?case using y by (auto simp: nth_Cons split: nat.splits)
qed

lemma snd_enumerate_in_set: "p \<in> set (enumerate n xs) \<Longrightarrow> snd p \<in> set xs"
  by (induction xs arbitrary: n) auto

text \<open>
  The claim C3 as stated fails: each normalizer reads a property of its argument first,
  which throws on \<open>null\<close>, and \<open>processGeminiTranscription\<close> throws on a segment without
  text.
\<close>

theorem null_input_throws:
  "processTranscription JNull = Inl TypeError
   \<and> processGeminiTranscription JNull = Inl TypeError
   \<and> processWhisperTranscription JNull = Inl TypeError
   \<and> processGeminiTranscription (JObject (segments_only [textless_segment])) = Inl TypeError"
  by (simp add: processTranscription_def processGeminiTranscription_def
      processWhisperTranscription_def segments_only_def textless_segment_def gemini_cue_def
      enumerate_eq_zip)

lemma processTranscription_total:
  "\<exists>cs. processTranscription (JObject t) = Inr cs \<and> cs \<noteq> []"
proof (cases "t_words t")
  case None
  then show ?thesis by (simp add: processTranscription_def)
next
  case (Some ws)
  show ?thesis
  proof (cases "ws = []")
    case True
    then show ?thesis using Some by (simp add: processTranscription_def)
  next
    case False
    then have "processTranscription (JObject t) = Inr (map (window_cue_of ws) [0..<(length ws + 7) div 8])"
      using Some by (simp add: processTranscription_eq)
    moreover have "0 < (length ws + 7) div 8" using False by (cases ws) auto
    ultimately show ?thesis by simp
  qed
qed

lemma gemini_total:
  assumes "\<forall>seg \<in> set (segments_of t). s_text seg \<noteq> None"
  shows "\<exists>cs. processGeminiTranscription (JObject t) = Inr cs \<and> cs \<noteq> []"
proof (cases "t_segments t")
  case None
  then show ?thesis by (simp add: processGeminiTranscription_def)
next
  case (Some segs)
  show ?thesis
  proof (cases "segs = []")
    case True
    then show ?thesis using Some by (simp add: processGeminiTranscription_def)
  next
    case False
    have "\<And>p. p \<in> set (enumerate 0 segs) \<Longrightarrow> \<exists>y. gemini_cue p = Inr y"
    proof -
      fix p assume "p \<in> set (enumerate 0 segs)"
      then have "snd p \<in> set segs" by (rule snd_enumerate_in_set)
      then have "s_text (snd p) \<noteq> None" using assms Some by (simp add: segments_of_def)
      then show "\<exists>y. gemini_cue p = Inr y"
        by (cases p) (auto simp: gemini_cue_def)
    qed
    then obtain ys where "map_err gemini_cue (enumerate 0 segs) = Inr ys"
      "length ys = length (enumerate 0 segs)"
      using map_err_exists by blast
    then show ?thesis using Some False by (auto simp: processGeminiTranscription_def)
  qed
qed

lemma whisper_total:
  assumes "t_transcription t \<noteq> None
           \<or> (\<forall>seg \<in> set (segments_of t). s_words seg \<noteq> None \<or> s_text seg \<noteq> None)"
  shows "\<exists>cs. processWhisperTranscription (JObject t) = Inr cs"
proof (cases "t_transcription t")
  case (Some ws)
  then show ?thesis by (simp add: processWhisperTranscription_def)
next
  case None
  note tn = None
  show ?thesis
  proof (cases "t_segments t")
    case None
    then show ?thesis using tn by (simp add: processWhisperTranscription_def)
  next
    case (Some segs)
    show ?thesis
    proof (cases "segs = []")
      case True
      then show ?thesis using Some tn by (simp add: processWhisperTranscription_def)
    next
      case False
      have "\<And>p. p \<in> set (enumerate 0 segs) \<Longrightarrow> \<exists>y. whisper_segment_cue p = Inr y"
      proof -
        fix p assume "p \<in> set (enumerate 0 segs)"
        then have "snd p \<in> set segs" by (rule snd_enumerate_in_set)
        then have "s_words (snd p) \<noteq> None \<or> s_text (snd p) \<noteq> None"
          using assms Some tn by (simp add: segments_of_def)
        then show "\<exists>y. whisper_segment_cue p = Inr y"
          by (cases p) (auto simp: whisper_segment_cue_def split: option.splits)
      qed
      then obtain ys where "map_err whisper_segment_cue (enumerate 0 segs) = Inr ys"
        using map_err_exists by blast
      then show ?thesis using Some False tn by (auto simp: processWhisperTranscription_def)
    qed
  qed
qed

text \<open>
  C3, amended. On an object (not \<open>null\<close>) the normalizers return a transcript and do not
  throw: \<open>processTranscription\<close> always, with at least one cue;
  \<open>processGeminiTranscription\<close> when every segment carries a text, with at least one cue;
  \<open>processWhisperTranscription\<close> when the input has a whisper.cpp \<open>transcription\<close> array
  (whose segments may lack every field) or when every segment carries its own word array
  or a text. Absent \<open>start\<close> and \<open>end\<close> never throw.
\<close>

theorem normalizers_return:
  "(\<exists>cs. processTranscription (JObject t) = Inr cs \<and> cs \<noteq> [])
   \<and> ((\<forall>seg \<in> set (segments_of t). s_text seg \<noteq> None)
        \<longrightarrow> (\<exists>cs. processGeminiTranscription (JObject t) = Inr cs \<and> cs \<noteq> []))
   \<and> ((t_transcription t \<noteq> None
          \<or> (\<forall>seg \<in> set (segments_of t). s_words seg \<noteq> None \<or> s_text seg \<noteq> None))
        \<longrightarrow> (\<exists>cs. processWhisperTranscription (JObject t) = Inr cs))"
  using processTranscription_total gemini_total whisper_total by blast

theorem normalizers_return_witness:
  "segments_of (segments_only [hi_segment]) = [hi_segment] \<and> s_text hi_segment \<noteq> None
   \<and> (\<exists>cs. processTranscription (JObject (segments_only [hi_segment])) = Inr cs \<and> cs \<noteq> [])
   \<and> (\<exists>cs. processGeminiTranscription (JObject (segments_only [hi_segment])) = Inr cs \<and> cs \<noteq> [])
   \<and> (\<exists>cs. processWhisperTranscription (JObject (segments_only [hi_segment])) = Inr cs)"
  using normalizers_return [of "segments_only [hi_segment]"]
  by (simp add: segments_of_def segments_only_def hi_segment_def)

text \<open>
  The claim C6 as stated fails on \<open>processWhisperTranscription\<close>: for
  \<open>{ text: "", segments: [] }\<close> its single cue carries three words.
\<close>

theorem whisper_fallback_has_words:
  "processWhisperTranscription (JObject empty_transcription)
     = Inr [\<lparr>c_id = 1, c_start = Num 0, c_end = Num 5,
              c_text = ascii ''No captions available'',
              c_words = Some [\<lparr>w_word = Some (ascii ''No''), w_start = Num 0, w_end = Num (1 / 2)\<rparr>,
                              \<lparr>w_word = Some (ascii ''captions''), w_start = Num (1 / 2), w_end = Num 1\<rparr>,
                              \<lparr>w_word = Some (ascii ''available''), w_start = Num 1, w_end = Num (3 / 2)\<rparr>]\<rparr>]
   \<and> processWhisperTranscription (JObject empty_transcription) \<noteq> Inr [fallback_cue empty_transcription]"
  by (simp add: processWhisperTranscription_def empty_transcription_def whisper_fallback_cue_def
      text_or_placeholder_def ascii_def enumerate_eq_zip upt_rec fallback_cue_def
      half_second_words_def Let_def)

lemma text_or_placeholder_cases:
  "text_or_placeholder None = ascii ''No captions available''"
  "text_or_placeholder (Some []) = ascii ''No captions available''"
  "s \<noteq> [] \<Longrightarrow> text_or_placeholder (Some s) = s"
  by (simp_all add: text_or_placeholder_def)

lemma half_second_words_nth:
  "length (half_second_words s) = length (js_split SPACE s)"
  "i < length (js_split SPACE s) \<Longrightarrow>
     half_second_words s ! i
       = \<lparr>w_word = Some (js_split SPACE s ! i),
          w_start = Num (of_nat i / 2), w_end = Num ((of_nat i + 1) / 2)\<rparr>"
  by (simp_all add: half_second_words_def nth_enumerate_eq add.commute)

text \<open>
  C6, amended. With no word list (\<open>processTranscription\<close>) or no segments
  (\<open>processGeminiTranscription\<close>) the normalizer returns exactly one cue: id 1, start 0,
  end 5, the raw text or \<open>"No captions available"\<close> when the text is empty or absent, and
  no words. \<open>processWhisperTranscription\<close>, given neither a \<open>transcription\<close> array nor
  segments, returns the same cue with a word list: the pieces of that text between
  single spaces, piece \<open>i\<close> timed \<open>[i / 2, (i + 1) / 2]\<close>.
\<close>

theorem fallback_single_cue:
  "(t_words t = None \<or> t_words t = Some []
      \<longrightarrow> processTranscription (JObject t)
            = Inr [\<lparr>c_id = 1, c_start = Num 0, c_end = Num 5,
                     c_text = text_or_placeholder (t_text t), c_words = None\<rparr>])
   \<and> (t_segments t = None \<or> t_segments t = Some []
      \<longrightarrow> processGeminiTranscription (JObject t)
            = Inr [\<lparr>c_id = 1, c_start = Num 0, c_end = Num 5,
                     c_text = text_or_placeholder (t_text t), c_words = None\<rparr>])
   \<and> (t_transcription t = None \<and> (t_segments t = None \<or> t_segments t = Some [])
      \<longrightarrow> processWhisperTranscription (JObject t)
            = Inr [\<lparr>c_id = 1, c_start = Num 0, c_end = Num 5,
                     c_text = text_or_placeholder (t_text t),
                     c_words = Some (half_second_words (text_or_placeholder (t_text t)))\<rparr>])
   \<and> (t_text t = None \<or> t_text t = Some []
      \<longrightarrow> text_or_placeholder (t_text t) = ascii ''No captions available'')
   \<and> (t_text t = Some s \<and> s \<noteq> [] \<longrightarrow> text_or_placeholder (t_text t) = s)
   \<and> length (half_second_words u) = length (js_split SPACE u)
   \<and> (i < length (js_split SPACE u)
      \<longrightarrow> half_second_words u ! i
            = \<lparr>w_word = Some (js_split SPACE u ! i),
               w_start = Num (of_nat i / 2), w_end = Num ((of_nat i + 1) / 2)\<rparr>)
   \<and> processGeminiTranscription (JObject empty_transcription)
       = Inr [\<lparr>c_id = 1, c_start = Num 0, c_end = Num 5,
                c_text = ascii ''No captions available'', c_words = None\<rparr>]"
  by (auto simp: processTranscription_def processGeminiTranscription_def
      processWhisperTranscription_def fallback_cue_def whisper_fallback_cue_def Let_def
      text_or_placeholder_cases empty_transcription_def half_second_words_nth)

theorem fallback_single_cue_witness:
  "t_words empty_transcription = None \<and> t_segments empty_transcription = Some []
   \<and> t_transcription empty_transcription = None \<and> t_text empty_transcription = Some []
   \<and> processTranscription (JObject empty_transcription)
       = Inr [\<lparr>c_id = 1, c_start = Num 0, c_end = Num 5,
                c_text = ascii ''No captions available'', c_words = None\<rparr>]
   \<and> processGeminiTranscription (JObject empty_transcription)
       = Inr [\<lparr>c_id = 1, c_start = Num 0, c_end = Num 5,
                c_text = ascii ''No captions available'', c_words = None\<rparr>]
   \<and> processWhisperTranscription (JObject empty_transcription)
       = Inr [\<lparr>c_id = 1, c_start = Num 0, c_end = Num 5,
                c_text = ascii ''No captions available'',
                c_words = Some (half_second_words (ascii ''No captions available''))\<rparr>]"
  using fallback_single_cue [of empty_transcription "[]" "[]" 0]
  by (simp add: empty_transcription_def)

section \<open>Properties of a segment's own word array\<close>

text \<open>
  The claim C7 as stated fails: a word without \<open>end\<close> in a segment over \<open>[2, 4]\<close> ends at
  its own start plus \<open>0.5\<close>, not at the segment's end.
\<close>

theorem own_word_end_not_segment_end:
  "processWhisperTranscription (JObject (segments_only [worded_segment]))
     = Inr [\<lparr>c_id = 1, c_start = Num 2, c_end = Num 4, c_text = ascii ''hi yo'',
              c_words = Some [\<lparr>w_word = Some (ascii ''hi''), w_start = Num 2, w_end = Num (5 / 2)\<rparr>,
                              \<lparr>w_word = Some (ascii ''yo''), w_start = Num 3, w_end = Num (7 / 2)\<rparr>]\<rparr>]
   \<and> rw_end endless_word = Undef
   \<and> w_end (own_word worded_segment endless_word) \<noteq> s_end worded_segment"
  by (simp add: processWhisperTranscription_def segments_only_def worded_segment_def
      endless_word_def timed_word_def whisper_segment_cue_def own_word_def js_or_def ascii_def
      enumerate_eq_zip fl_five_halves)

lemma whisper_segment_cue_own_words:
  "s_words seg = Some rws \<Longrightarrow> whisper_segment_cue (i, seg) = Inr c
     \<Longrightarrow> c_words c = Some (map (own_word seg) rws)"
  by (auto simp: whisper_segment_cue_def)

lemma own_word_fields:
  "w_word (own_word seg w) = str_or (rw_word w) (rw_text w)"
  "rw_start w = Num a \<Longrightarrow> a \<noteq> 0 \<Longrightarrow> w_start (own_word seg w) = Num a"
  "rw_start w = Undef \<Longrightarrow> w_start (own_word seg w) = s_start seg"
  "rw_start w = Num 0 \<Longrightarrow> w_start (own_word seg w) = s_start seg"
  "rw_end w = Num b \<Longrightarrow> b \<noteq> 0 \<Longrightarrow> w_end (own_word seg w) = Num b"
  "rw_end w = Undef \<Longrightarrow> rw_start w = Num a \<Longrightarrow> w_end (own_word seg w) = fl (a + 1 / 2)"
  "rw_end w = Num 0 \<Longrightarrow> rw_start w = Num a \<Longrightarrow> w_end (own_word seg w) = fl (a + 1 / 2)"
  by (simp_all add: own_word_def js_or_def)

lemma str_or_cases:
  "x = Some s \<Longrightarrow> s \<noteq> [] \<Longrightarrow> str_or x y = Some s"
  "x = None \<or> x = Some [] \<Longrightarrow> str_or x y = y"
  by auto

text \<open>
  C7, amended. For a segment of the cloud format that supplies its own word array the
  cue's words are that array mapped entry by entry: the text is the non-empty \<open>word\<close>
  property, else the \<open>text\<close> property; a non-zero \<open>start\<close> or \<open>end\<close> is copied; an absent or
  zero \<open>start\<close> becomes the segment's \<open>start\<close>; an absent or zero \<open>end\<close> becomes the word's
  own \<open>start\<close> plus \<open>0.5\<close>, the sum rounded to binary64 and so the sum itself when that is a
  binary64 number. When every segment supplies words the normalizer returns.
\<close>

theorem own_words_mapping:
  assumes "t_transcription t = None" and "t_segments t = Some segs"
    and "i < length segs" and "s_words (segs ! i) = Some rws" and "j < length rws"
  shows "(processWhisperTranscription (JObject t) = Inr cs
           \<longrightarrow> length cs = length segs
               \<and> c_words (cs ! i) = Some (map (own_word (segs ! i)) rws))
    \<and> ((\<forall>seg \<in> set segs. s_words seg \<noteq> None)
           \<longrightarrow> (\<exists>cs'. processWhisperTranscription (JObject t) = Inr cs'))
    \<and> (rw_word (rws ! j) = Some s \<and> s \<noteq> []
           \<longrightarrow> w_word (map (own_word (segs ! i)) rws ! j) = Some s)
    \<and> (rw_word (rws ! j) = None \<or> rw_word (rws ! j) = Some []
           \<longrightarrow> w_word (map (own_word (segs ! i)) rws ! j) = rw_text (rws ! j))
    \<and> (rw_start (rws ! j) = Num a \<and> a \<noteq> 0
           \<longrightarrow> w_start (map (own_word (segs ! i)) rws ! j) = Num a)
    \<and> (rw_start (rws ! j) = Undef \<or> rw_start (rws ! j) = Num 0
           \<longrightarrow> w_start (map (own_word (segs ! i)) rws ! j) = s_start (segs ! i))
    \<and> (rw_end (rws ! j) = Num b \<and> b \<noteq> 0
           \<longrightarrow> w_end (map (own_word (segs ! i)) rws ! j) = Num b)
    \<and> ((rw_end (rws ! j) = Undef \<or> rw_end (rws ! j) = Num 0) \<and> rw_start (rws ! j) = Num a
           \<longrightarrow> w_end (map (own_word (segs ! i)) rws ! j) = fl (a + 1 / 2))
    \<and> ((rw_end (rws ! j) = Undef \<or> rw_end (rws ! j) = Num 0) \<and> rw_start (rws ! j) = Num a
          \<and> is_double (a + 1 / 2)
           \<longrightarrow> w_end (map (own_word (segs ! i)) rws ! j) = Num (a + 1 / 2))"
proof -
  have ne: "segs \<noteq> []" using assms(3) by auto
  have run: "processWhisperTranscription (JObject t)
              = map_err whisper_segment_cue (enumerate 0 segs)"
    using assms(1,2) ne by (simp add: processWhisperTranscription_def)
  have A: "processWhisperTranscription (JObject t) = Inr cs
           \<longrightarrow> length cs = length segs
               \<and> c_words (cs ! i) = Some (map (own_word (segs ! i)) rws)"
  proof
    assume "processWhisperTranscription (JObject t) = Inr cs"
    then have m: "map_err whisper_segment_cue (enumerate 0 segs) = Inr cs"
      using run by simp
    from map_err_Inr_nth [OF m]
    have len: "length cs = length segs"
      and nth: "\<forall>k < length (enumerate 0 segs).
                  whisper_segment_cue (enumerate 0 segs ! k) = Inr (cs ! k)"
      by simp_all
    have "whisper_segment_cue (i, segs ! i) = Inr (cs ! i)"
      using nth assms(3) by (simp add: nth_enumerate_eq)
    then have "c_words (cs ! i) = Some (map (own_word (segs ! i)) rws)"
      using assms(4) whisper_segment_cue_own_words by blast
    then show "length cs = length segs \<and> c_words (cs ! i) = Some (map (own_word (segs ! i)) rws)"
      using len by simp
  qed
  have B: "(\<forall>seg \<in> set segs. s_words seg \<noteq> None)
           \<longrightarrow> (\<exists>cs'. processWhisperTranscription (JObject t) = Inr cs')"
  proof
    assume "\<forall>seg \<in> set segs. s_words seg \<noteq> None"
    then have "t_transcription t \<noteq> None
           \<or> (\<forall>seg \<in> set (segments_of t). s_words seg \<noteq> None \<or> s_text seg \<noteq> None)"
      using assms(2) by (simp add: segments_of_def)
    then show "\<exists>cs'. processWhisperTranscription (JObject t) = Inr cs'"
      by (rule whisper_total)
  qed
  have nthj: "map (own_word (segs ! i)) rws ! j = own_word (segs ! i) (rws ! j)"
    using assms(5) by simp
  show ?thesis
    unfolding nthj
    by (intro conjI A B impI) (auto simp: own_word_fields str_or_cases is_double_def)
qed

theorem own_words_mapping_witness:
  "t_transcription (segments_only [worded_segment]) = None
   \<and> t_segments (segments_only [worded_segment]) = Some [worded_segment]
   \<and> (0::nat) < length [worded_segment]
   \<and> s_words ([worded_segment] ! 0) = Some [endless_word, timed_word]
   \<and> (0::nat) < length [endless_word, timed_word] \<and> (1::nat) < length [endless_word, timed_word]
   \<and> s_words worded_segment \<noteq> None
   \<and> (\<exists>cs'. processWhisperTranscription (JObject (segments_only [worded_segment])) = Inr cs')
   \<and> rw_word ([endless_word, timed_word] ! 0) = Some (ascii ''hi'') \<and> ascii ''hi'' \<noteq> []
   \<and> w_word (map (own_word ([worded_segment] ! 0)) [endless_word, timed_word] ! 0) = Some (ascii ''hi'')
   \<and> rw_start ([endless_word, timed_word] ! 0) = Num 2 \<and> (2::rat) \<noteq> 0
   \<and> w_start (map (own_word ([worded_segment] ! 0)) [endless_word, timed_word] ! 0) = Num 2
   \<and> rw_end ([endless_word, timed_word] ! 0) = Undef \<and> is_double (2 + 1 / 2)
   \<and> w_end (map (own_word ([worded_segment] ! 0)) [endless_word, timed_word] ! 0) = Num (2 + 1 / 2)
   \<and> rw_word ([endless_word, timed_word] ! 1) = None
   \<and> w_word (map (own_word ([worded_segment] ! 0)) [endless_word, timed_word] ! 1) = Some (ascii ''yo'')
   \<and> rw_end ([endless_word, timed_word] ! 1) = Num (7 / 2) \<and> (7 / 2 :: rat) \<noteq> 0
   \<and> w_end (map (own_word ([worded_segment] ! 0)) [endless_word, timed_word] ! 1) = Num (7 / 2)"
proof -
  have h1: "t_transcription (segments_only [worded_segment]) = None"
    by (simp add: segments_only_def)
  have h2: "t_segments (segments_only [worded_segment]) = Some [worded_segment]"
    by (simp add: segments_only_def)
  have h3: "(0::nat) < length [worded_segment]" by simp
  have h4: "s_words ([worded_segment] ! 0) = Some [endless_word, timed_word]"
    by (simp add: worded_segment_def)
  have h5: "(0::nat) < length [endless_word, timed_word]" by simp
  have h6: "(1::nat) < length [endless_word, timed_word]" by simp
  have f: "rw_word ([endless_word, timed_word] ! 0) = Some (ascii ''hi'')" "ascii ''hi'' \<noteq> []"
    "rw_start ([endless_word, timed_word] ! 0) = Num 2"
    "rw_end ([endless_word, timed_word] ! 0) = Undef"
    "s_words worded_segment \<noteq> None"
    "rw_word ([endless_word, timed_word] ! 1) = None"
    "rw_text ([endless_word, timed_word] ! 1) = Some (ascii ''yo'')"
    "rw_end ([endless_word, timed_word] ! 1) = Num (7 / 2)"
    "is_double (2 + 1 / 2)"
    by (simp_all add: endless_word_def timed_word_def ascii_def worded_segment_def is_double_def
        fl_five_halves)
  show ?thesis
    using own_words_mapping [OF h1 h2 h3 h4 h5, of "[]" "ascii ''hi''" 2 "7 / 2"]
          own_words_mapping [OF h1 h2 h3 h4 h6, of "[]" "ascii ''hi''" 3 "7 / 2"]
          h1 h2 h4 f
    by (simp add: fl_five_halves)
qed

section \<open>Properties of uniform subdivision\<close>

lemma js_split_nonempty: "js_split sep s \<noteq> []"
  by (induction s) (auto split: list.splits)

lemma segment_text_words_nth:
  "length (segment_text_words s e text) = length (js_split SPACE text)"
  "i < length (js_split SPACE text) \<Longrightarrow>
     segment_text_words s e text ! i
       = \<lparr>w_word = Some (js_split SPACE text ! i),
          w_start = piece_start s (word_duration s e (length (js_split SPACE text))) i,
          w_end = piece_start s (word_duration s e (length (js_split SPACE text))) (i + 1)\<rparr>"
  by (simp_all add: segment_text_words_def nth_enumerate_eq Let_def piece_start_def
      word_duration_def)

lemma whisper_words_nth:
  "length (whisper_words s e text) = length (kept_tokens text)"
  "i < length (kept_tokens text) \<Longrightarrow>
     whisper_words s e text ! i
       = \<lparr>w_word = Some (kept_tokens text ! i),
          w_start = piece_start s (word_duration s e (length (kept_tokens text))) i,
          w_end = js_add (piece_start s (word_duration s e (length (kept_tokens text))) i)
                         (word_duration s e (length (kept_tokens text)))\<rparr>"
  by (simp_all add: whisper_words_def kept_tokens_def nth_enumerate_eq Let_def piece_start_def
      word_duration_def)

lemma word_duration_finite:
  assumes "js_sub (Num b) (Num a) = Num c" and "0 < n"
  shows "\<exists>d. word_duration (Num a) (Num b) n = Num d \<and> (0 \<le> c \<longrightarrow> 0 \<le> d)"
proof -
  have c: "is_double c"
    using assms(1) by (simp add: is_double_fl)
  have "\<bar>c / of_nat n\<bar> \<le> \<bar>c\<bar>"
  proof -
    have "(1::rat) \<le> of_nat n" using assms(2) by simp
    then have "\<bar>c\<bar> / of_nat n \<le> \<bar>c\<bar> / 1"
      by (intro divide_left_mono) simp_all
    then show ?thesis by simp
  qed
  then obtain d where d: "fl (c / of_nat n) = Num d"
    using fl_bounded [OF c] by blast
  have "0 \<le> d" if "0 \<le> c"
  proof -
    have "(0::rat) \<le> c / of_nat n" using that by simp
    then have "js_le (fl 0) (fl (c / of_nat n))" by (rule fl_mono)
    then show ?thesis using d by simp
  qed
  then show ?thesis
    using assms d by (simp add: word_duration_def)
qed

lemma piece_start_zero: "is_double a \<Longrightarrow> piece_start (Num a) (Num d) 0 = Num a"
  by (simp add: piece_start_def is_double_def)

lemma piece_start_mono:
  assumes "0 \<le> d" and "i \<le> j"
  shows "js_le (piece_start (Num a) (Num d) i) (piece_start (Num a) (Num d) j)"
proof -
  have "rat_of_nat i * d \<le> rat_of_nat j * d"
    using assms by (intro mult_right_mono) simp_all
  then have "js_le (fl (rat_of_nat i * d)) (fl (rat_of_nat j * d))"
    by (rule fl_mono)
  then show ?thesis
    unfolding piece_start_def js_mul.simps by (rule js_add_mono)
qed

lemma first_piece_starts_span:
  assumes "is_double a" and "js_sub (Num b) (Num a) = Num c" and "0 < n"
  shows "piece_start (Num a) (word_duration (Num a) (Num b) n) 0 = Num a"
proof -
  obtain d where "word_duration (Num a) (Num b) n = Num d"
    using word_duration_finite [OF assms(2,3)] by blast
  then show ?thesis using assms(1) by (simp add: piece_start_zero)
qed

lemma piece_starts_ascend:
  assumes "a \<le> b" and "js_sub (Num b) (Num a) = Num c" and "0 < n" and "i \<le> j"
  shows "js_le (piece_start (Num a) (word_duration (Num a) (Num b) n) i)
               (piece_start (Num a) (word_duration (Num a) (Num b) n) j)"
proof -
  have "js_le (fl 0) (fl (b - a))"
    using assms(1) by (intro fl_mono) simp
  then have "0 \<le> c" using assms(2) by simp
  then obtain d where "word_duration (Num a) (Num b) n = Num d" "0 \<le> d"
    using word_duration_finite [OF assms(2,3)] by blast
  then show ?thesis using assms(4) by (simp add: piece_start_mono)
qed

lemma fl_overflow:
  assumes "2 powi 1024 \<le> x"
  shows "fl x = PInf"
proof -
  have pos: "(0::rat) < 2 powi 1024" by simp
  have x: "0 < x" using assms pos by linarith
  have "fl_pos (2 powi 1024) = 2 powi 1024"
    by (rule fl_pos_exactI [where k = 1024 and N = "2 ^ 52"]) simp_all
  moreover have "fl_pos (2 powi 1024) \<le> fl_pos x"
    using pos assms by (rule fl_pos_mono)
  ultimately have "2 powi 1024 \<le> fl_pos x" by simp
  then show ?thesis using x by (simp add: fl_def Let_def)
qed

lemma is_double_huge: "is_double huge"
  unfolding is_double_def huge_def
  apply (rule fl_eqI [where k = 1023 and m = "2 ^ 52"])
       apply simp_all
  apply (rule round_even_eqI)
  apply simp
  done

lemma huge_span_overflows: "js_sub (Num huge) (Num (- huge)) = PInf"
proof -
  have "huge + huge = 2 powi 1024" by (simp add: huge_def)
  then have "fl (huge + huge) = PInf" by (simp add: fl_overflow)
  then show ?thesis by (simp add: js_sub_def)
qed

lemma huge_cue:
  "gemini_cue (0, huge_segment)
     = Inr \<lparr>c_id = 1, c_start = Num (- huge), c_end = Num huge, c_text = ascii ''a'',
            c_words = Some [\<lparr>w_word = Some (ascii ''a''), w_start = NaN, w_end = PInf\<rparr>]\<rparr>"
  by (simp add: gemini_cue_def huge_segment_def text_segment_def segment_text_words_def
      ascii_def enumerate_eq_zip upt_rec huge_span_overflows signed_inf_def
      del: js_sub_Num)

lemma tenths_words:
  "segment_text_words (Num 0) (Num nine_tenths) (ascii ''a b c'')
     = [\<lparr>w_word = Some (ascii ''a''), w_start = Num 0,
         w_end = Num (5404319552844595 / 18014398509481984)\<rparr>,
        \<lparr>w_word = Some (ascii ''b''), w_start = Num (5404319552844595 / 18014398509481984),
         w_end = Num (5404319552844595 / 9007199254740992)\<rparr>,
        \<lparr>w_word = Some (ascii ''c''), w_start = Num (5404319552844595 / 9007199254740992),
         w_end = Num (2026619832316723 / 2251799813685248)\<rparr>]"
  by (simp add: segment_text_words_def ascii_def enumerate_eq_zip upt_rec nine_tenths_def
      fl_nine_tenths_val fl_tenths_duration fl_tenths_1 fl_tenths_2 fl_tenths_3 fl_tenths_end
      fl_idem [OF fl_tenths_2])

text \<open>
  The claim C2 as stated fails. The text is cut at space characters only, so a tab does
  not separate tokens, and \<open>processGeminiTranscription\<close> keeps the empty piece between two
  spaces as a word of its own. The timings are computed in binary64: over \<open>[0, 0.9]\<close> the
  last of three words ends at \<open>0.8999999999999999\<close>, before the segment's end. When the
  length of the span overflows, the first word starts at \<open>NaN\<close>. And over a segment whose
  end lies before its start the start times decrease.
\<close>

theorem uniform_subdivision_fails:
  "processGeminiTranscription (JObject (segments_only [text_segment 0 2 [97, 9, 98]]))
     = Inr [\<lparr>c_id = 1, c_start = Num 0, c_end = Num 2, c_text = [97, 9, 98],
              c_words = Some [\<lparr>w_word = Some [97, 9, 98], w_start = Num 0, w_end = Num 2\<rparr>]\<rparr>]
   \<and> spec_subdivision 0 2 [97, 9, 98]
     = [\<lparr>w_word = Some [97], w_start = Num 0, w_end = Num 1\<rparr>,
        \<lparr>w_word = Some [98], w_start = Num 1, w_end = Num 2\<rparr>]
   \<and> processGeminiTranscription (JObject (segments_only [text_segment 0 3 (ascii ''a  b'')]))
     = Inr [\<lparr>c_id = 1, c_start = Num 0, c_end = Num 3, c_text = ascii ''a  b'',
              c_words = Some [\<lparr>w_word = Some (ascii ''a''), w_start = Num 0, w_end = Num 1\<rparr>,
                              \<lparr>w_word = Some [], w_start = Num 1, w_end = Num 2\<rparr>,
                              \<lparr>w_word = Some (ascii ''b''), w_start = Num 2, w_end = Num 3\<rparr>]\<rparr>]
   \<and> spec_subdivision 0 3 (ascii ''a  b'')
     = [\<lparr>w_word = Some (ascii ''a''), w_start = Num 0, w_end = Num (3 / 2)\<rparr>,
        \<lparr>w_word = Some (ascii ''b''), w_start = Num (3 / 2), w_end = Num 3\<rparr>]
   \<and> fl (9 / 10) = Num nine_tenths \<and> is_double nine_tenths
   \<and> processGeminiTranscription (JObject (segments_only [tenths_segment]))
     = Inr [\<lparr>c_id = 1, c_start = Num 0, c_end = Num nine_tenths, c_text = ascii ''a b c'',
              c_words = Some (segment_text_words (Num 0) (Num nine_tenths) (ascii ''a b c''))\<rparr>]
   \<and> w_end (last (segment_text_words (Num 0) (Num nine_tenths) (ascii ''a b c'')))
     = Num (2026619832316723 / 2251799813685248)
   \<and> w_end (last (segment_text_words (Num 0) (Num nine_tenths) (ascii ''a b c'')))
     \<noteq> Num nine_tenths
   \<and> is_double huge \<and> is_double (- huge)
   \<and> gemini_cue (0, huge_segment)
     = Inr \<lparr>c_id = 1, c_start = Num (- huge), c_end = Num huge, c_text = ascii ''a'',
            c_words = Some [\<lparr>w_word = Some (ascii ''a''), w_start = NaN, w_end = PInf\<rparr>]\<rparr>
   \<and> gemini_cue (0, backward_segment)
     = Inr \<lparr>c_id = 1, c_start = Num 6, c_end = Num 3, c_text = ascii ''a b'',
            c_words = Some [\<lparr>w_word = Some (ascii ''a''), w_start = Num 6, w_end = Num (9 / 2)\<rparr>,
                            \<lparr>w_word = Some (ascii ''b''), w_start = Num (9 / 2), w_end = Num 3\<rparr>]\<rparr>
   \<and> \<not> js_le (Num 6) (Num (9 / 2))"
proof -
  have tab: "processGeminiTranscription (JObject (segments_only [text_segment 0 2 [97, 9, 98]]))
     = Inr [\<lparr>c_id = 1, c_start = Num 0, c_end = Num 2, c_text = [97, 9, 98],
              c_words = Some [\<lparr>w_word = Some [97, 9, 98], w_start = Num 0, w_end = Num 2\<rparr>]\<rparr>]"
    by (simp add: processGeminiTranscription_def segments_only_def text_segment_def gemini_cue_def
        segment_text_words_def enumerate_eq_zip upt_rec fl_numeral)
  have tab_spec: "spec_subdivision 0 2 [97, 9, 98]
     = [\<lparr>w_word = Some [97], w_start = Num 0, w_end = Num 1\<rparr>,
        \<lparr>w_word = Some [98], w_start = Num 1, w_end = Num 2\<rparr>]"
    by (simp add: spec_subdivision_def spec_tokens_def uniform_words_def uniform_word_def
        is_js_space_def enumerate_eq_zip upt_rec)
  have dbl: "processGeminiTranscription (JObject (segments_only [text_segment 0 3 (ascii ''a  b'')]))
     = Inr [\<lparr>c_id = 1, c_start = Num 0, c_end = Num 3, c_text = ascii ''a  b'',
              c_words = Some [\<lparr>w_word = Some (ascii ''a''), w_start = Num 0, w_end = Num 1\<rparr>,
                              \<lparr>w_word = Some [], w_start = Num 1, w_end = Num 2\<rparr>,
                              \<lparr>w_word = Some (ascii ''b''), w_start = Num 2, w_end = Num 3\<rparr>]\<rparr>]"
    by (simp add: processGeminiTranscription_def segments_only_def text_segment_def gemini_cue_def
        segment_text_words_def ascii_def enumerate_eq_zip upt_rec fl_numeral fl_one)
  have dbl_spec: "spec_subdivision 0 3 (ascii ''a  b'')
     = [\<lparr>w_word = Some (ascii ''a''), w_start = Num 0, w_end = Num (3 / 2)\<rparr>,
        \<lparr>w_word = Some (ascii ''b''), w_start = Num (3 / 2), w_end = Num 3\<rparr>]"
    by (simp add: spec_subdivision_def spec_tokens_def uniform_words_def uniform_word_def
        is_js_space_def ascii_def enumerate_eq_zip upt_rec)
  have lit: "fl (9 / 10) = Num nine_tenths"
    by (simp add: nine_tenths_def fl_nine_tenths_lit)
  have dbl9: "is_double nine_tenths"
    by (simp add: is_double_def nine_tenths_def fl_nine_tenths_val)
  have cue: "processGeminiTranscription (JObject (segments_only [tenths_segment]))
     = Inr [\<lparr>c_id = 1, c_start = Num 0, c_end = Num nine_tenths, c_text = ascii ''a b c'',
              c_words = Some (segment_text_words (Num 0) (Num nine_tenths) (ascii ''a b c''))\<rparr>]"
    by (simp add: processGeminiTranscription_def segments_only_def tenths_segment_def
        text_segment_def gemini_cue_def enumerate_eq_zip upt_rec)
  have last_end: "w_end (last (segment_text_words (Num 0) (Num nine_tenths) (ascii ''a b c'')))
     = Num (2026619832316723 / 2251799813685248)"
    by (simp add: tenths_words)
  have short: "w_end (last (segment_text_words (Num 0) (Num nine_tenths) (ascii ''a b c'')))
     \<noteq> Num nine_tenths"
    unfolding last_end by (simp add: nine_tenths_def)
  have neg: "is_double (- huge)"
    using is_double_huge by (rule is_double_neg)
  have bw: "gemini_cue (0, backward_segment)
     = Inr \<lparr>c_id = 1, c_start = Num 6, c_end = Num 3, c_text = ascii ''a b'',
            c_words = Some [\<lparr>w_word = Some (ascii ''a''), w_start = Num 6, w_end = Num (9 / 2)\<rparr>,
                            \<lparr>w_word = Some (ascii ''b''), w_start = Num (9 / 2), w_end = Num 3\<rparr>]\<rparr>"
    by (simp add: gemini_cue_def backward_segment_def text_segment_def segment_text_words_def
        ascii_def enumerate_eq_zip upt_rec fl_neg fl_numeral fl_three_halves fl_nine_halves)
  have dec: "\<not> js_le (Num 6) (Num (9 / 2))"
    by simp
  show ?thesis
    by (intro conjI tab tab_spec dbl dbl_spec lit dbl9 cue last_end short is_double_huge neg
        huge_cue bw dec)
qed

lemma gemini_cue_words:
  "gemini_cue (k, text_segment a b text)
     = Inr \<lparr>c_id = k + 1, c_start = Num a, c_end = Num b, c_text = text,
            c_words = Some (segment_text_words (Num a) (Num b) text)\<rparr>"
  by (simp add: gemini_cue_def text_segment_def)

lemma whisper_cpp_cue_words:
  assumes "fl (f / 1000) = Num a" and "fl (g / 1000) = Num b" and "b \<noteq> 0"
  shows "whisper_cpp_cue (k, \<lparr>ws_offsets = Some (Num f, Num g), ws_text = Some text\<rparr>)
     = \<lparr>c_id = k + 1, c_start = Num a, c_end = Num b, c_text = trim text,
        c_words = Some (whisper_words (Num a) (Num b) (trim text))\<rparr>"
  using assms
  by (simp add: whisper_cpp_cue_def offsets_from_def offsets_to_def js_or_def Let_def)

lemma segment_text_words_first:
  assumes "is_double a" and "js_sub (Num b) (Num a) = Num c"
  shows "w_start (hd (segment_text_words (Num a) (Num b) text)) = Num a"
proof -
  have n: "0 < length (js_split SPACE text)"
    using js_split_nonempty [of SPACE "text"] by simp
  then have "segment_text_words (Num a) (Num b) text \<noteq> []"
    using segment_text_words_nth(1) [of "Num a" "Num b" "text"] by auto
  then have "hd (segment_text_words (Num a) (Num b) text)
               = segment_text_words (Num a) (Num b) text ! 0"
    by (rule hd_conv_nth)
  then show ?thesis
    using n assms by (simp add: segment_text_words_nth(2) first_piece_starts_span)
qed

lemma whisper_words_first:
  assumes "is_double a" and "js_sub (Num b) (Num a) = Num c" and "kept_tokens text \<noteq> []"
  shows "w_start (hd (whisper_words (Num a) (Num b) text)) = Num a"
proof -
  have n: "0 < length (kept_tokens text)"
    using assms(3) by simp
  then have "whisper_words (Num a) (Num b) text \<noteq> []"
    using whisper_words_nth(1) [of "Num a" "Num b" "text"] by auto
  then have "hd (whisper_words (Num a) (Num b) text) = whisper_words (Num a) (Num b) text ! 0"
    by (rule hd_conv_nth)
  then show ?thesis
    using n assms(1,2) by (simp add: whisper_words_nth(2) first_piece_starts_span)
qed

lemma segment_text_words_ascend:
  assumes "a \<le> b" and "js_sub (Num b) (Num a) = Num c"
    and "i \<le> j" and "j < length (js_split SPACE text)"
  shows "js_le (w_start (segment_text_words (Num a) (Num b) text ! i))
               (w_start (segment_text_words (Num a) (Num b) text ! j))"
proof -
  have "0 < length (js_split SPACE text)" "i < length (js_split SPACE text)"
    using assms(3,4) by linarith+
  then show ?thesis
    using assms by (simp add: segment_text_words_nth(2) piece_starts_ascend)
qed

lemma whisper_words_ascend:
  assumes "a \<le> b" and "js_sub (Num b) (Num a) = Num c"
    and "i \<le> j" and "j < length (kept_tokens text)"
  shows "js_le (w_start (whisper_words (Num a) (Num b) text ! i))
               (w_start (whisper_words (Num a) (Num b) text ! j))"
proof -
  have "0 < length (kept_tokens text)" "i < length (kept_tokens text)"
    using assms(3,4) by linarith+
  then show ?thesis
    using assms by (simp add: whisper_words_nth(2) piece_starts_ascend)
qed

lemma one_two_three_cue:
  "processGeminiTranscription
        (JObject (segments_only [text_segment 3 6 (ascii ''one two three'')]))
     = Inr [\<lparr>c_id = 1, c_start = Num 3, c_end = Num 6, c_text = ascii ''one two three'',
              c_words = Some [\<lparr>w_word = Some (ascii ''one''), w_start = Num 3, w_end = Num 4\<rparr>,
                              \<lparr>w_word = Some (ascii ''two''), w_start = Num 4, w_end = Num 5\<rparr>,
                              \<lparr>w_word = Some (ascii ''three''), w_start = Num 5, w_end = Num 6\<rparr>]\<rparr>]"
  by (simp add: processGeminiTranscription_def segments_only_def text_segment_def gemini_cue_def
      segment_text_words_def ascii_def enumerate_eq_zip upt_rec fl_numeral fl_one)

text \<open>
  C2, amended. The tokens are the pieces of the segment's text between single space
  characters; there is always at least one. When none of the pieces is empty,
  \<open>processGeminiTranscription\<close> times piece \<open>i\<close> of \<open>n\<close> over the span \<open>[a, b]\<close> as
  \<open>[a + i * d, a + (i + 1) * d]\<close> with \<open>d = (b - a) / n\<close>, every operation rounded to
  binary64. The whisper.cpp branch divides its offsets by 1000, trims the text, discards
  the empty pieces, produces no words when none is left, and times piece \<open>i\<close> as
  \<open>[a + i * d, (a + i * d) + d]\<close>, rounded likewise. On both paths, when \<open>a\<close> is a binary64
  number and \<open>b - a\<close> is finite the first word starts at \<open>a\<close>, and when moreover \<open>a <= b\<close> the
  start times do not decrease. Nothing is said of the last word's end. \<open>start = 3\<close>,
  \<open>end = 6\<close>, \<open>"one two three"\<close> gives one[3,4], two[4,5], three[5,6].
\<close>

theorem uniform_subdivision:
  "js_split SPACE text \<noteq> []
   \<and> ([] \<notin> set (js_split SPACE text)
      \<longrightarrow> gemini_cue (k, text_segment a b text)
            = Inr \<lparr>c_id = k + 1, c_start = Num a, c_end = Num b, c_text = text,
                   c_words = Some (segment_text_words (Num a) (Num b) text)\<rparr>
          \<and> length (segment_text_words (Num a) (Num b) text) = length (js_split SPACE text)
          \<and> (i < length (js_split SPACE text)
             \<longrightarrow> segment_text_words (Num a) (Num b) text ! i
                 = \<lparr>w_word = Some (js_split SPACE text ! i),
                    w_start = piece_start (Num a)
                      (word_duration (Num a) (Num b) (length (js_split SPACE text))) i,
                    w_end = piece_start (Num a)
                      (word_duration (Num a) (Num b) (length (js_split SPACE text))) (i + 1)\<rparr>)
          \<and> (is_double a \<and> js_sub (Num b) (Num a) = Num c
             \<longrightarrow> w_start (hd (segment_text_words (Num a) (Num b) text)) = Num a)
          \<and> (a \<le> b \<and> js_sub (Num b) (Num a) = Num c \<and> i \<le> j \<and> j < length (js_split SPACE text)
             \<longrightarrow> js_le (w_start (segment_text_words (Num a) (Num b) text ! i))
                       (w_start (segment_text_words (Num a) (Num b) text ! j))))
   \<and> (fl (f / 1000) = Num a \<and> fl (g / 1000) = Num b \<and> b \<noteq> 0
      \<longrightarrow> whisper_cpp_cue (k, \<lparr>ws_offsets = Some (Num f, Num g), ws_text = Some text\<rparr>)
          = \<lparr>c_id = k + 1, c_start = Num a, c_end = Num b, c_text = trim text,
             c_words = Some (whisper_words (Num a) (Num b) (trim text))\<rparr>)
   \<and> length (whisper_words (Num a) (Num b) text) = length (kept_tokens text)
   \<and> (kept_tokens text = [] \<longrightarrow> whisper_words (Num a) (Num b) text = [])
   \<and> (i < length (kept_tokens text)
      \<longrightarrow> whisper_words (Num a) (Num b) text ! i
          = \<lparr>w_word = Some (kept_tokens text ! i),
             w_start = piece_start (Num a)
               (word_duration (Num a) (Num b) (length (kept_tokens text))) i,
             w_end = js_add
               (piece_start (Num a) (word_duration (Num a) (Num b) (length (kept_tokens text))) i)
               (word_duration (Num a) (Num b) (length (kept_tokens text)))\<rparr>)
   \<and> (is_double a \<and> js_sub (Num b) (Num a) = Num c \<and> kept_tokens text \<noteq> []
      \<longrightarrow> w_start (hd (whisper_words (Num a) (Num b) text)) = Num a)
   \<and> (a \<le> b \<and> js_sub (Num b) (Num a) = Num c \<and> i \<le> j \<and> j < length (kept_tokens text)
      \<longrightarrow> js_le (w_start (whisper_words (Num a) (Num b) text ! i))
                (w_start (whisper_words (Num a) (Num b) text ! j)))
   \<and> processGeminiTranscription
        (JObject (segments_only [text_segment 3 6 (ascii ''one two three'')]))
     = Inr [\<lparr>c_id = 1, c_start = Num 3, c_end = Num 6, c_text = ascii ''one two three'',
              c_words = Some [\<lparr>w_word = Some (ascii ''one''), w_start = Num 3, w_end = Num 4\<rparr>,
                              \<lparr>w_word = Some (ascii ''two''), w_start = Num 4, w_end = Num 5\<rparr>,
                              \<lparr>w_word = Some (ascii ''three''), w_start = Num 5, w_end = Num 6\<rparr>]\<rparr>]"
proof -
  have nth: "i < length (js_split SPACE text)
             \<longrightarrow> segment_text_words (Num a) (Num b) text ! i
                 = \<lparr>w_word = Some (js_split SPACE text ! i),
                    w_start = piece_start (Num a)
                      (word_duration (Num a) (Num b) (length (js_split SPACE text))) i,
                    w_end = piece_start (Num a)
                      (word_duration (Num a) (Num b) (length (js_split SPACE text))) (i + 1)\<rparr>"
    by (simp add: segment_text_words_nth(2))
  have first: "is_double a \<and> js_sub (Num b) (Num a) = Num c
             \<longrightarrow> w_start (hd (segment_text_words (Num a) (Num b) text)) = Num a"
    using segment_text_words_first by blast
  have asc: "a \<le> b \<and> js_sub (Num b) (Num a) = Num c \<and> i \<le> j \<and> j < length (js_split SPACE text)
             \<longrightarrow> js_le (w_start (segment_text_words (Num a) (Num b) text ! i))
                       (w_start (segment_text_words (Num a) (Num b) text ! j))"
    using segment_text_words_ascend by blast
  have cpp: "fl (f / 1000) = Num a \<and> fl (g / 1000) = Num b \<and> b \<noteq> 0
      \<longrightarrow> whisper_cpp_cue (k, \<lparr>ws_offsets = Some (Num f, Num g), ws_text = Some text\<rparr>)
          = \<lparr>c_id = k + 1, c_start = Num a, c_end = Num b, c_text = trim text,
             c_words = Some (whisper_words (Num a) (Num b) (trim text))\<rparr>"
    using whisper_cpp_cue_words by blast
  have none: "kept_tokens text = [] \<longrightarrow> whisper_words (Num a) (Num b) text = []"
    using whisper_words_nth(1) [of "Num a" "Num b" "text"] by auto
  have wnth: "i < length (kept_tokens text)
      \<longrightarrow> whisper_words (Num a) (Num b) text ! i
          = \<lparr>w_word = Some (kept_tokens text ! i),
             w_start = piece_start (Num a)
               (word_duration (Num a) (Num b) (length (kept_tokens text))) i,
             w_end = js_add
               (piece_start (Num a) (word_duration (Num a) (Num b) (length (kept_tokens text))) i)
               (word_duration (Num a) (Num b) (length (kept_tokens text)))\<rparr>"
    by (simp add: whisper_words_nth(2))
  have wfirst: "is_double a \<and> js_sub (Num b) (Num a) = Num c \<and> kept_tokens text \<noteq> []
      \<longrightarrow> w_start (hd (whisper_words (Num a) (Num b) text)) = Num a"
    using whisper_words_first by blast
  have wasc: "a \<le> b \<and> js_sub (Num b) (Num a) = Num c \<and> i \<le> j \<and> j < length (kept_tokens text)
      \<longrightarrow> js_le (w_start (whisper_words (Num a) (Num b) text ! i))
                (w_start (whisper_words (Num a) (Num b) text ! j))"
    using whisper_words_ascend by blast
  show ?thesis
    by (intro conjI impI js_split_nonempty gemini_cue_words segment_text_words_nth(1)
        nth first asc cpp whisper_words_nth(1) none wnth wfirst wasc one_two_three_cue)
qed

theorem uniform_subdivision_witness:
  "[] \<notin> set (js_split SPACE (ascii ''one two three''))
   \<and> is_double 3 \<and> js_sub (Num 6) (Num 3) = Num 3
   \<and> (3::rat) \<le> 6 \<and> (0::nat) \<le> 2 \<and> 2 < length (js_split SPACE (ascii ''one two three''))
   \<and> w_start (hd (segment_text_words (Num 3) (Num 6) (ascii ''one two three''))) = Num 3
   \<and> js_le (w_start (segment_text_words (Num 3) (Num 6) (ascii ''one two three'') ! 0))
            (w_start (segment_text_words (Num 3) (Num 6) (ascii ''one two three'') ! 2))
   \<and> fl (3000 / 1000) = Num 3 \<and> fl (6000 / 1000) = Num 6 \<and> (6::rat) \<noteq> 0
   \<and> whisper_cpp_cue (0, spaced_segment)
      = \<lparr>c_id = 1, c_start = Num 3, c_end = Num 6, c_text = ascii ''one  two three'',
         c_words = Some (whisper_words (Num 3) (Num 6) (ascii ''one  two three''))\<rparr>
   \<and> kept_tokens (ascii ''one  two three'') = one_two_three
   \<and> length (whisper_words (Num 3) (Num 6) (ascii ''one  two three'')) = 3
   \<and> whisper_words (Num 3) (Num 6) (ascii ''one  two three'') ! 2
      = \<lparr>w_word = Some (ascii ''three''), w_start = Num 5, w_end = Num 6\<rparr>
   \<and> w_start (hd (whisper_words (Num 3) (Num 6) (ascii ''one  two three''))) = Num 3
   \<and> js_le (w_start (whisper_words (Num 3) (Num 6) (ascii ''one  two three'') ! 0))
            (w_start (whisper_words (Num 3) (Num 6) (ascii ''one  two three'') ! 2))"
proof -
  have sp: "js_split SPACE (ascii ''one two three'') = one_two_three"
    "kept_tokens (ascii ''one  two three'') = one_two_three"
    "trim (ascii '' one  two three '') = ascii ''one  two three''"
    by (simp_all add: kept_tokens_def trim_def is_js_space_def ascii_def one_two_three_def)
  have l: "length one_two_three = 3" "one_two_three ! 2 = ascii ''three''" "one_two_three \<noteq> []"
    "[] \<notin> set one_two_three"
    by (simp_all add: one_two_three_def ascii_def)
  have n: "is_double 3" "js_sub (Num 6) (Num 3) = Num 3"
    "fl (3000 / 1000) = Num 3" "fl (6000 / 1000) = Num 6"
    by (simp_all add: is_double_def fl_numeral)
  have d: "word_duration (Num 3) (Num 6) 3 = Num 1"
    "piece_start (Num 3) (Num 1) 2 = Num 5" "js_add (Num 5) (Num 1) = Num 6"
    by (simp_all add: word_duration_def piece_start_def fl_numeral fl_one)
  note T1 = uniform_subdivision [of "ascii ''one two three''" 0 3 6 0 3 2 3000 6000]
  note T2 = uniform_subdivision [of "ascii '' one  two three ''" 0 3 6 0 3 2 3000 6000]
  note T3 = uniform_subdivision [of "ascii ''one  two three''" 0 3 6 0 3 2 3000 6000]
  note T4 = uniform_subdivision [of "ascii ''one  two three''" 0 3 6 2 3 2 3000 6000]
  have p: "[] \<notin> set (js_split SPACE (ascii ''one two three''))"
    "is_double 3 \<and> js_sub (Num 6) (Num 3) = Num 3"
    "(3::rat) \<le> 6 \<and> js_sub (Num 6) (Num 3) = Num 3 \<and> (0::nat) \<le> 2
       \<and> 2 < length (js_split SPACE (ascii ''one two three''))"
    "fl (3000 / 1000) = Num 3 \<and> fl (6000 / 1000) = Num 6 \<and> (6::rat) \<noteq> 0"
    "is_double 3 \<and> js_sub (Num 6) (Num 3) = Num 3 \<and> kept_tokens (ascii ''one  two three'') \<noteq> []"
    "(3::rat) \<le> 6 \<and> js_sub (Num 6) (Num 3) = Num 3 \<and> (0::nat) \<le> 2
       \<and> 2 < length (kept_tokens (ascii ''one  two three''))"
    "2 < length (kept_tokens (ascii ''one  two three''))"
    using n l by (simp_all add: sp)
  have g1: "w_start (hd (segment_text_words (Num 3) (Num 6) (ascii ''one two three''))) = Num 3"
    using T1 p(1,2) by blast
  have g2: "js_le (w_start (segment_text_words (Num 3) (Num 6) (ascii ''one two three'') ! 0))
            (w_start (segment_text_words (Num 3) (Num 6) (ascii ''one two three'') ! 2))"
    using T1 p(1,3) by blast
  have "whisper_cpp_cue (0, \<lparr>ws_offsets = Some (Num 3000, Num 6000),
                               ws_text = Some (ascii '' one  two three '')\<rparr>)
      = \<lparr>c_id = 0 + 1, c_start = Num 3, c_end = Num 6, c_text = trim (ascii '' one  two three ''),
         c_words = Some (whisper_words (Num 3) (Num 6) (trim (ascii '' one  two three '')))\<rparr>"
    using T2 p(4) by blast
  then have w1: "whisper_cpp_cue (0, spaced_segment)
      = \<lparr>c_id = 1, c_start = Num 3, c_end = Num 6, c_text = ascii ''one  two three'',
         c_words = Some (whisper_words (Num 3) (Num 6) (ascii ''one  two three''))\<rparr>"
    by (simp add: sp(3) spaced_segment_def)
  have "length (whisper_words (Num 3) (Num 6) (ascii ''one  two three''))
          = length (kept_tokens (ascii ''one  two three''))"
    using T3 by blast
  then have w2: "length (whisper_words (Num 3) (Num 6) (ascii ''one  two three'')) = 3"
    by (simp add: sp(2) l(1))
  have "whisper_words (Num 3) (Num 6) (ascii ''one  two three'') ! 2
          = \<lparr>w_word = Some (kept_tokens (ascii ''one  two three'') ! 2),
             w_start = piece_start (Num 3)
               (word_duration (Num 3) (Num 6) (length (kept_tokens (ascii ''one  two three'')))) 2,
             w_end = js_add
               (piece_start (Num 3)
                  (word_duration (Num 3) (Num 6) (length (kept_tokens (ascii ''one  two three'')))) 2)
               (word_duration (Num 3) (Num 6) (length (kept_tokens (ascii ''one  two three''))))\<rparr>"
    using T4 p(7) by blast
  then have w3: "whisper_words (Num 3) (Num 6) (ascii ''one  two three'') ! 2
      = \<lparr>w_word = Some (ascii ''three''), w_start = Num 5, w_end = Num 6\<rparr>"
    by (simp add: sp(2) l(1,2) d fl_numeral)
  have w4: "w_start (hd (whisper_words (Num 3) (Num 6) (ascii ''one  two three''))) = Num 3"
    using T3 p(5) by blast
  have w5: "js_le (w_start (whisper_words (Num 3) (Num 6) (ascii ''one  two three'') ! 0))
            (w_start (whisper_words (Num 3) (Num 6) (ascii ''one  two three'') ! 2))"
    using T3 p(6) by blast
  show ?thesis
    by (intro conjI g1 g2 w1 w2 w3 w4 w5 n sp(2)) (simp_all add: sp(1) l)
qed

section \<open>The cue invariant on derived word lists\<close>

lemma demo_first_words:
  "demo_words 0 (ascii ''Welcome to this amazing video demonstration'')
     = [\<lparr>w_word = Some (ascii ''Welcome''), w_start = Num 0,
         w_end = Num (3602879701896397 / 9007199254740992)\<rparr>,
        \<lparr>w_word = Some (ascii ''to''), w_start = Num (3602879701896397 / 9007199254740992),
         w_end = Num (3602879701896397 / 4503599627370496)\<rparr>,
        \<lparr>w_word = Some (ascii ''this''), w_start = Num (3602879701896397 / 4503599627370496),
         w_end = Num (1351079888211149 / 1125899906842624)\<rparr>,
        \<lparr>w_word = Some (ascii ''amazing''), w_start = Num (1351079888211149 / 1125899906842624),
         w_end = Num (3602879701896397 / 2251799813685248)\<rparr>,
        \<lparr>w_word = Some (ascii ''video''), w_start = Num (3602879701896397 / 2251799813685248),
         w_end = Num 2\<rparr>,
        \<lparr>w_word = Some (ascii ''demonstration''), w_start = Num 2,
         w_end = Num (1351079888211149 / 562949953421312)\<rparr>]"
  by (simp add: demo_words_def ascii_def enumerate_eq_zip upt_rec lit_0_4_def fl_two_fifths
      fl_numeral fl_demo_step_1 fl_demo_step_2 fl_demo_step_3 fl_demo_step_4 fl_demo_step_5
      fl_demo_step_6 fl_idem [OF fl_demo_step_2] fl_idem [OF fl_demo_step_3]
      fl_idem [OF fl_demo_step_4] fl_idem [OF fl_demo_step_6])

lemma second_words:
  "whisper_words (Num 1) (Num 2) (ascii ''a b c'')
     = [\<lparr>w_word = Some (ascii ''a''), w_start = Num 1,
         w_end = Num (6004799503160661 / 4503599627370496)\<rparr>,
        \<lparr>w_word = Some (ascii ''b''), w_start = Num (6004799503160661 / 4503599627370496),
         w_end = Num (3752999689475413 / 2251799813685248)\<rparr>,
        \<lparr>w_word = Some (ascii ''c''), w_start = Num (3752999689475413 / 2251799813685248),
         w_end = Num (9007199254740991 / 4503599627370496)\<rparr>]"
  by (simp add: whisper_words_def ascii_def enumerate_eq_zip upt_rec Let_def fl_one fl_numeral
      fl_third fl_third_val fl_second_1 fl_second_2 fl_second_3 fl_second_4 fl_second_5)

text \<open>
  The claim C8 as stated fails. The first cue of \<open>generateDemoCaptions\<close> ends at \<open>3\<close> while
  its last word ends at \<open>2.4000000000000004\<close>. A whisper.cpp segment over 1000 to 2000
  milliseconds with three words gives a cue that ends at \<open>2\<close> while its last word ends
  at \<open>1.9999999999999998\<close>, and the cue of \<open>processGeminiTranscription\<close> over \<open>[0, 0.9]\<close>
  ends at \<open>0.9\<close> while its last word ends at \<open>0.8999999999999999\<close>. A text that ends with a
  tab is copied into the cue untrimmed. And when the length of the span overflows, the
  first word starts at \<open>NaN\<close>, not at the cue's start.
\<close>

theorem derived_cue_invariant_fails:
  "c_end (generateDemoCaptions ! 0) = Num 3
   \<and> w_end (last (cue_words (generateDemoCaptions ! 0))) = Num (1351079888211149 / 562949953421312)
   \<and> \<not> cue_invariant (generateDemoCaptions ! 0)
   \<and> whisper_cpp_cue (0, second_segment)
      = \<lparr>c_id = 1, c_start = Num 1, c_end = Num 2, c_text = ascii ''a b c'',
         c_words = Some (whisper_words (Num 1) (Num 2) (ascii ''a b c''))\<rparr>
   \<and> w_end (last (cue_words (whisper_cpp_cue (0, second_segment))))
      = Num (9007199254740991 / 4503599627370496)
   \<and> \<not> ends_with_last_word (whisper_cpp_cue (0, second_segment))
   \<and> \<not> cue_invariant (whisper_cpp_cue (0, second_segment))
   \<and> gemini_cue (0, tenths_segment)
      = Inr \<lparr>c_id = 1, c_start = Num 0, c_end = Num nine_tenths, c_text = ascii ''a b c'',
             c_words = Some (segment_text_words (Num 0) (Num nine_tenths) (ascii ''a b c''))\<rparr>
   \<and> \<not> ends_with_last_word
          \<lparr>c_id = 1, c_start = Num 0, c_end = Num nine_tenths, c_text = ascii ''a b c'',
           c_words = Some (segment_text_words (Num 0) (Num nine_tenths) (ascii ''a b c''))\<rparr>
   \<and> gemini_cue (0, text_segment 0 1 [97, 9])
      = Inr \<lparr>c_id = 1, c_start = Num 0, c_end = Num 1, c_text = [97, 9],
             c_words = Some [\<lparr>w_word = Some [97, 9], w_start = Num 0, w_end = Num 1\<rparr>]\<rparr>
   \<and> trim (js_join [SPACE] (map word_text [\<lparr>w_word = Some [97, 9], w_start = Num 0, w_end = Num 1\<rparr>]))
      = [97]
   \<and> \<not> cue_invariant
          \<lparr>c_id = 1, c_start = Num 0, c_end = Num 1, c_text = [97, 9],
           c_words = Some [\<lparr>w_word = Some [97, 9], w_start = Num 0, w_end = Num 1\<rparr>]\<rparr>
   \<and> is_double (- huge) \<and> is_double huge
   \<and> gemini_cue (0, huge_segment)
      = Inr \<lparr>c_id = 1, c_start = Num (- huge), c_end = Num huge, c_text = ascii ''a'',
             c_words = Some [\<lparr>w_word = Some (ascii ''a''), w_start = NaN, w_end = PInf\<rparr>]\<rparr>
   \<and> \<not> starts_with_first_word
          \<lparr>c_id = 1, c_start = Num (- huge), c_end = Num huge, c_text = ascii ''a'',
           c_words = Some [\<lparr>w_word = Some (ascii ''a''), w_start = NaN, w_end = PInf\<rparr>]\<rparr>"
proof -
  have demo: "generateDemoCaptions ! 0
     = \<lparr>c_id = 1, c_start = Num 0, c_end = Num 3,
        c_text = ascii ''Welcome to this amazing video demonstration'',
        c_words = Some (demo_words 0 (ascii ''Welcome to this amazing video demonstration''))\<rparr>"
    by (simp add: generateDemoCaptions_def demoTexts_def demo_cue_def enumerate_eq_zip upt_rec)
  have d1: "c_end (generateDemoCaptions ! 0) = Num 3"
    by (simp add: demo)
  have d2: "w_end (last (cue_words (generateDemoCaptions ! 0)))
              = Num (1351079888211149 / 562949953421312)"
    by (simp add: demo cue_words_def demo_first_words)
  have d3: "\<not> cue_invariant (generateDemoCaptions ! 0)"
    by (simp add: demo cue_words_def demo_first_words cue_invariant_def)
  have tr: "trim (ascii ''a b c'') = ascii ''a b c''"
    by (simp add: trim_def is_js_space_def ascii_def)
  have w1: "whisper_cpp_cue (0, second_segment)
      = \<lparr>c_id = 1, c_start = Num 1, c_end = Num 2, c_text = ascii ''a b c'',
         c_words = Some (whisper_words (Num 1) (Num 2) (ascii ''a b c''))\<rparr>"
    by (simp add: whisper_cpp_cue_def second_segment_def offsets_from_def offsets_to_def
        js_or_def Let_def fl_one fl_numeral tr)
  have w2: "w_end (last (cue_words (whisper_cpp_cue (0, second_segment))))
      = Num (9007199254740991 / 4503599627370496)"
    by (simp add: w1 cue_words_def second_words)
  have w3: "\<not> ends_with_last_word (whisper_cpp_cue (0, second_segment))"
    by (simp add: w1 cue_words_def second_words ends_with_last_word_def)
  have w4: "\<not> cue_invariant (whisper_cpp_cue (0, second_segment))"
    by (simp add: w1 cue_words_def second_words cue_invariant_def)
  have g1: "gemini_cue (0, tenths_segment)
      = Inr \<lparr>c_id = 1, c_start = Num 0, c_end = Num nine_tenths, c_text = ascii ''a b c'',
             c_words = Some (segment_text_words (Num 0) (Num nine_tenths) (ascii ''a b c''))\<rparr>"
    by (simp add: gemini_cue_def tenths_segment_def text_segment_def)
  have g2: "\<not> ends_with_last_word
          \<lparr>c_id = 1, c_start = Num 0, c_end = Num nine_tenths, c_text = ascii ''a b c'',
           c_words = Some (segment_text_words (Num 0) (Num nine_tenths) (ascii ''a b c''))\<rparr>"
    by (simp add: cue_words_def tenths_words ends_with_last_word_def) (simp add: nine_tenths_def)
  have t1: "gemini_cue (0, text_segment 0 1 [97, 9])
      = Inr \<lparr>c_id = 1, c_start = Num 0, c_end = Num 1, c_text = [97, 9],
             c_words = Some [\<lparr>w_word = Some [97, 9], w_start = Num 0, w_end = Num 1\<rparr>]\<rparr>"
    by (simp add: gemini_cue_def text_segment_def segment_text_words_def enumerate_eq_zip
        upt_rec fl_one)
  have t2: "trim (js_join [SPACE]
                (map word_text [\<lparr>w_word = Some [97, 9], w_start = Num 0, w_end = Num 1\<rparr>]))
      = [97]"
    by (simp add: trim_def is_js_space_def word_text_def)
  have t3: "\<not> cue_invariant
          \<lparr>c_id = 1, c_start = Num 0, c_end = Num 1, c_text = [97, 9],
           c_words = Some [\<lparr>w_word = Some [97, 9], w_start = Num 0, w_end = Num 1\<rparr>]\<rparr>"
    by (simp add: cue_invariant_def cue_words_def trim_def is_js_space_def word_text_def)
  have neg: "is_double (- huge)"
    using is_double_huge by (rule is_double_neg)
  have h1: "\<not> starts_with_first_word
          \<lparr>c_id = 1, c_start = Num (- huge), c_end = Num huge, c_text = ascii ''a'',
           c_words = Some [\<lparr>w_word = Some (ascii ''a''), w_start = NaN, w_end = PInf\<rparr>]\<rparr>"
    by (simp add: starts_with_first_word_def cue_words_def)
  show ?thesis
    by (intro conjI d1 d2 d3 w1 w2 w3 w4 g1 g2 t1 t2 t3 neg is_double_huge huge_cue h1)
qed

lemma js_join_Cons_Cons: "js_join sep ((c # t) # ts) = c # js_join sep (t # ts)"
  by (cases ts) simp_all

lemma js_join_split: "js_join [sep] (js_split sep s) = s"
proof (induction s)
  case Nil
  then show ?case by simp
next
  case (Cons c cs)
  obtain t ts where sp: "js_split sep cs = t # ts"
    using js_split_nonempty [of sep cs] by (cases "js_split sep cs") auto
  show ?case
    using Cons sp by (simp add: js_join_Cons_Cons)
qed

lemma map_word_text_enumerate:
  "(\<And>i w. w_word (g i w) = Some w)
     \<Longrightarrow> map word_text (map (\<lambda>(i, w). g i w) (enumerate n xs)) = xs"
  by (induction xs arbitrary: n) (simp_all add: word_text_def)

lemma map_word_text_segment:
  "map word_text (segment_text_words s e text) = js_split SPACE text"
  unfolding segment_text_words_def
  by (rule map_word_text_enumerate) (simp add: Let_def)

lemma map_word_text_demo: "map word_text (demo_words k s) = js_split SPACE s"
  unfolding demo_words_def
  by (rule map_word_text_enumerate) simp

lemma map_word_text_half: "map word_text (half_second_words s) = js_split SPACE s"
  unfolding half_second_words_def
  by (rule map_word_text_enumerate) simp

lemma window_cue_invariant:
  assumes "k < (length ws + 7) div 8"
  shows "cue_invariant (window_cue_of ws k)"
proof -
  obtain w0 rest where w: "window ws k = w0 # rest"
    using window_nonempty [OF assms] by (cases "window ws k") auto
  show ?thesis
    by (simp add: cue_invariant_def cue_words_def window_cue_of_def w)
qed

lemma windows_invariant:
  assumes "t_words t = Some ws" and "ws \<noteq> []"
  shows "\<exists>cs. processTranscription (JObject t) = Inr cs \<and> list_all cue_invariant cs"
proof -
  have "list_all cue_invariant (map (window_cue_of ws) [0..<(length ws + 7) div 8])"
    by (simp add: list_all_iff window_cue_invariant)
  then show ?thesis
    using processTranscription_eq [OF assms] by simp
qed

lemma segment_words_start_text:
  "text_joins_words \<lparr>c_id = n, c_start = Num a, c_end = e, c_text = text,
                      c_words = Some (segment_text_words (Num a) (Num b) text)\<rparr>"
  "is_double a \<Longrightarrow> js_sub (Num b) (Num a) = Num c \<Longrightarrow>
     starts_with_first_word \<lparr>c_id = n, c_start = Num a, c_end = e, c_text = text,
                             c_words = Some (segment_text_words (Num a) (Num b) text)\<rparr>"
proof -
  show "text_joins_words \<lparr>c_id = n, c_start = Num a, c_end = e, c_text = text,
                      c_words = Some (segment_text_words (Num a) (Num b) text)\<rparr>"
    by (simp add: text_joins_words_def cue_words_def map_word_text_segment js_join_split)
  assume "is_double a" "js_sub (Num b) (Num a) = Num c"
  moreover have "segment_text_words (Num a) (Num b) text \<noteq> []"
    using segment_text_words_nth(1) [of "Num a" "Num b" "text"] js_split_nonempty [of SPACE "text"]
    by auto
  ultimately show "starts_with_first_word \<lparr>c_id = n, c_start = Num a, c_end = e, c_text = text,
                             c_words = Some (segment_text_words (Num a) (Num b) text)\<rparr>"
    by (simp add: starts_with_first_word_def cue_words_def segment_text_words_first)
qed

lemma gemini_cue_start_text:
  "\<exists>c. gemini_cue (k, text_segment a b text) = Inr c \<and> text_joins_words c
        \<and> (is_double a \<and> js_sub (Num b) (Num a) = Num d \<longrightarrow> starts_with_first_word c)"
  using segment_words_start_text by (simp add: gemini_cue_words)

lemma whisper_segment_cue_start_text:
  "\<exists>c. whisper_segment_cue (k, text_segment a b text) = Inr c \<and> text_joins_words c
        \<and> (is_double a \<and> js_sub (Num b) (Num a) = Num d \<longrightarrow> starts_with_first_word c)"
proof -
  have st: "(case str_or (Some text) (Some []) of None \<Rightarrow> [] | Some u \<Rightarrow> u) = text"
    by (cases "text") simp_all
  have "js_or (Num a) (Num 0) = Num a"
    by (simp add: js_or_def)
  then have "whisper_segment_cue (k, text_segment a b text)
          = Inr \<lparr>c_id = k + 1, c_start = Num a, c_end = js_or (Num b) (js_add (Num a) (Num 3)),
                 c_text = text, c_words = Some (segment_text_words (Num a) (Num b) text)\<rparr>"
    by (simp add: whisper_segment_cue_def text_segment_def st)
  then show ?thesis using segment_words_start_text by simp
qed

lemma js_div_double: "js_div x y = Num r \<Longrightarrow> is_double r"
  by (cases x; cases y) (auto simp: is_double_fl split: if_splits)

lemma js_or_zero_double:
  assumes "js_or (js_div x y) (Num 0) = Num r"
  shows "is_double r"
proof (cases "truthy (js_div x y)")
  case True
  then show ?thesis using assms by (simp add: js_or_def js_div_double)
next
  case False
  then show ?thesis using assms by (auto simp: js_or_def)
qed

lemma whisper_cpp_cue_start:
  assumes "cue_words (whisper_cpp_cue (k, seg)) \<noteq> []"
    and "c_start (whisper_cpp_cue (k, seg)) = Num a"
    and "js_sub (c_end (whisper_cpp_cue (k, seg))) (c_start (whisper_cpp_cue (k, seg))) = Num c"
  shows "starts_with_first_word (whisper_cpp_cue (k, seg))"
proof -
  define trimmed where "trimmed = (case ws_text seg of None \<Rightarrow> [] | Some s \<Rightarrow> trim s)"
  obtain b where b: "c_end (whisper_cpp_cue (k, seg)) = Num b"
    using js_sub_finite [OF assms(3)] by blast
  have w: "c_words (whisper_cpp_cue (k, seg)) = Some (whisper_words (Num a) (Num b) trimmed)"
    using assms(2) b by (simp add: whisper_cpp_cue_def Let_def trimmed_def)
  have "js_or (js_div (offsets_from seg) (Num 1000)) (Num 0) = Num a"
    using assms(2) by (simp add: whisper_cpp_cue_def Let_def)
  then have a: "is_double a" by (rule js_or_zero_double)
  have sub: "js_sub (Num b) (Num a) = Num c"
    using assms(2,3) b by simp
  have "whisper_words (Num a) (Num b) trimmed \<noteq> []"
    using assms(1) w by (simp add: cue_words_def)
  then have "kept_tokens trimmed \<noteq> []"
    using whisper_words_nth(1) [of "Num a" "Num b" trimmed] by auto
  then have "w_start (hd (whisper_words (Num a) (Num b) trimmed)) = Num a"
    using a sub by (intro whisper_words_first)
  then show ?thesis
    using assms(1,2) w by (simp add: starts_with_first_word_def cue_words_def)
qed

lemma fl_of_nat: "n < 2 ^ 53 \<Longrightarrow> fl (of_nat n) = Num (of_nat n)"
proof (cases "n = 0")
  case True
  then show ?thesis by simp
next
  case False
  assume "n < 2 ^ 53"
  then have "int n < 2 ^ 53"
    by (metis of_nat_less_iff of_nat_numeral of_nat_power)
  then show ?thesis
    using False fl_of_int [of "int n"] by simp
qed

lemma demo_cue_start_text:
  "(3 * k < 2 ^ 53 \<longrightarrow> starts_with_first_word (demo_cue (k, text)))
   \<and> text_joins_words (demo_cue (k, text))
   \<and> c_end (demo_cue (k, text)) = Num (of_nat (k + 1) * 3)"
proof -
  obtain t ts where sp: "js_split SPACE text = t # ts"
    using js_split_nonempty [of SPACE "text"] by (cases "js_split SPACE text") auto
  have ne: "demo_words k text \<noteq> []"
    by (simp add: demo_words_def sp)
  have "w_start (hd (demo_words k text)) = Num (of_nat k * 3)" if "3 * k < 2 ^ 53"
  proof -
    have "fl (of_nat (3 * k)) = Num (of_nat (3 * k))"
      using that by (rule fl_of_nat)
    then have "fl (of_nat k * 3) = Num (of_nat k * 3)"
      by (simp add: mult.commute)
    then show ?thesis
      by (simp add: demo_words_def sp lit_0_4_def fl_two_fifths)
  qed
  then show ?thesis
    using ne
    by (simp add: starts_with_first_word_def text_joins_words_def demo_cue_def cue_words_def
        map_word_text_demo js_join_split)
qed

lemma whisper_fallback_start_text:
  "starts_with_first_word (whisper_fallback_cue t) \<and> text_joins_words (whisper_fallback_cue t)
   \<and> c_end (whisper_fallback_cue t) = Num 5"
proof -
  let ?text = "text_or_placeholder (t_text t)"
  obtain u us where sp: "js_split SPACE ?text = u # us"
    using js_split_nonempty [of SPACE ?text] by (cases "js_split SPACE ?text") auto
  have "hd (half_second_words ?text) = \<lparr>w_word = Some u, w_start = Num 0, w_end = Num (1 / 2)\<rparr>"
    by (simp add: half_second_words_def sp)
  moreover have "half_second_words ?text \<noteq> []"
    by (simp add: half_second_words_def sp)
  ultimately show ?thesis
    by (simp add: starts_with_first_word_def text_joins_words_def whisper_fallback_cue_def
        cue_words_def Let_def map_word_text_half js_join_split)
qed

lemma demo_captions_start_text:
  "list_all (\<lambda>c. starts_with_first_word c \<and> text_joins_words c) generateDemoCaptions"
proof -
  have "starts_with_first_word (demo_cue p) \<and> text_joins_words (demo_cue p)"
    if "p \<in> set (enumerate 0 demoTexts)" for p
  proof -
    obtain k s where p: "p = (k, s)" by (cases p)
    have "k < length demoTexts"
      using that p by (simp add: in_set_enumerate_eq)
    then have "k < 6" by (simp add: demoTexts_def)
    then have "3 * k < 2 ^ 53" by simp
    then show ?thesis
      using demo_cue_start_text [of k s] p by simp
  qed
  then show ?thesis
    by (simp add: generateDemoCaptions_def list_all_iff)
qed

text \<open>
  C8, amended. The cues of the word-window path satisfy the whole invariant. A cue whose
  words are synthesized by uniform subdivision of a span starts with its first word when
  the span's start is a binary64 number and its length is finite: in
  \<open>processGeminiTranscription\<close>, in the segment branch of \<open>processWhisperTranscription\<close>, and
  in the whisper.cpp branch whenever it produces words; in the first two the text is the
  words joined by single spaces, untrimmed. The cues of \<open>generateDemoCaptions\<close> and of the
  text-only fallback of \<open>processWhisperTranscription\<close> start with their first word and
  their text is the words joined by single spaces; their end is the fixed \<open>3 * id\<close>,
  respectively \<open>5\<close>, whatever the words. Outside the word-window path nothing is said of
  the last word's end.
\<close>

theorem derived_cue_invariant:
  "(t_words t = Some ws \<and> ws \<noteq> []
      \<longrightarrow> (\<exists>cs. processTranscription (JObject t) = Inr cs \<and> list_all cue_invariant cs))
   \<and> (\<exists>c. gemini_cue (k, text_segment a b text) = Inr c \<and> text_joins_words c
           \<and> (is_double a \<and> js_sub (Num b) (Num a) = Num d \<longrightarrow> starts_with_first_word c))
   \<and> (\<exists>c. whisper_segment_cue (k, text_segment a b text) = Inr c \<and> text_joins_words c
           \<and> (is_double a \<and> js_sub (Num b) (Num a) = Num d \<longrightarrow> starts_with_first_word c))
   \<and> (cue_words (whisper_cpp_cue (k, seg)) \<noteq> []
        \<and> c_start (whisper_cpp_cue (k, seg)) = Num a
        \<and> js_sub (c_end (whisper_cpp_cue (k, seg))) (c_start (whisper_cpp_cue (k, seg))) = Num d
      \<longrightarrow> starts_with_first_word (whisper_cpp_cue (k, seg)))
   \<and> (3 * k < 2 ^ 53 \<longrightarrow> starts_with_first_word (demo_cue (k, text)))
   \<and> text_joins_words (demo_cue (k, text))
   \<and> c_end (demo_cue (k, text)) = Num (of_nat (k + 1) * 3)
   \<and> starts_with_first_word (whisper_fallback_cue t) \<and> text_joins_words (whisper_fallback_cue t)
   \<and> c_end (whisper_fallback_cue t) = Num 5
   \<and> list_all (\<lambda>c. starts_with_first_word c \<and> text_joins_words c) generateDemoCaptions"
proof -
  have w: "t_words t = Some ws \<and> ws \<noteq> []
      \<longrightarrow> (\<exists>cs. processTranscription (JObject t) = Inr cs \<and> list_all cue_invariant cs)"
    using windows_invariant by blast
  have c: "cue_words (whisper_cpp_cue (k, seg)) \<noteq> []
        \<and> c_start (whisper_cpp_cue (k, seg)) = Num a
        \<and> js_sub (c_end (whisper_cpp_cue (k, seg))) (c_start (whisper_cpp_cue (k, seg))) = Num d
      \<longrightarrow> starts_with_first_word (whisper_cpp_cue (k, seg))"
    using whisper_cpp_cue_start by blast
  note d = demo_cue_start_text [of k "text"]
  note f = whisper_fallback_start_text [of t]
  show ?thesis
    by (intro conjI w gemini_cue_start_text whisper_segment_cue_start_text c
        demo_captions_start_text
        d [THEN conjunct1] d [THEN conjunct2, THEN conjunct1] d [THEN conjunct2, THEN conjunct2]
        f [THEN conjunct1] f [THEN conjunct2, THEN conjunct1] f [THEN conjunct2, THEN conjunct2])
qed

theorem derived_cue_invariant_witness:
  "t_words (words_only seventeen_words) = Some seventeen_words \<and> seventeen_words \<noteq> []
   \<and> (\<exists>cs. processTranscription (JObject (words_only seventeen_words)) = Inr cs
          \<and> list_all cue_invariant cs)
   \<and> is_double 3 \<and> js_sub (Num 6) (Num 3) = Num 3
   \<and> (\<exists>c. gemini_cue (0, text_segment 3 6 (ascii ''one two three'')) = Inr c
          \<and> text_joins_words c \<and> starts_with_first_word c)
   \<and> (\<exists>c. whisper_segment_cue (0, text_segment 3 6 (ascii ''one two three'')) = Inr c
          \<and> text_joins_words c \<and> starts_with_first_word c)
   \<and> cue_words (whisper_cpp_cue (0, spaced_segment)) \<noteq> []
   \<and> c_start (whisper_cpp_cue (0, spaced_segment)) = Num 3
   \<and> js_sub (c_end (whisper_cpp_cue (0, spaced_segment)))
             (c_start (whisper_cpp_cue (0, spaced_segment))) = Num 3
   \<and> starts_with_first_word (whisper_cpp_cue (0, spaced_segment))
   \<and> (3 * 0 :: nat) < 2 ^ 53
   \<and> starts_with_first_word (demo_cue (0, ascii ''one two three''))
   \<and> c_end (demo_cue (0, ascii ''one two three'')) = Num 3"
proof -
  have h1: "t_words (words_only seventeen_words) = Some seventeen_words \<and> seventeen_words \<noteq> []"
    by (simp add: words_only_def seventeen_words_def)
  have h2: "is_double 3 \<and> js_sub (Num 6) (Num 3) = Num 3"
    by (simp add: is_double_def fl_numeral)
  have cpp: "c_start (whisper_cpp_cue (0, spaced_segment)) = Num 3"
    "c_end (whisper_cpp_cue (0, spaced_segment)) = Num 6"
    by (simp_all add: whisper_cpp_cue_def spaced_segment_def offsets_from_def offsets_to_def
        js_or_def Let_def fl_numeral)
  have h3: "cue_words (whisper_cpp_cue (0, spaced_segment)) \<noteq> []
        \<and> c_start (whisper_cpp_cue (0, spaced_segment)) = Num 3
        \<and> js_sub (c_end (whisper_cpp_cue (0, spaced_segment)))
                  (c_start (whisper_cpp_cue (0, spaced_segment))) = Num 3"
    unfolding cpp
    by (simp add: whisper_cpp_cue_def spaced_segment_def Let_def whisper_words_def cue_words_def
        trim_def is_js_space_def ascii_def fl_numeral)
  have h4: "(3 * 0 :: nat) < 2 ^ 53" by simp
  note T = derived_cue_invariant [of "words_only seventeen_words" seventeen_words 0 3 6
      "ascii ''one two three''" 3 spaced_segment]
  have a1: "\<exists>cs. processTranscription (JObject (words_only seventeen_words)) = Inr cs
          \<and> list_all cue_invariant cs"
    using T h1 by blast
  have a2: "\<exists>c. gemini_cue (0, text_segment 3 6 (ascii ''one two three'')) = Inr c
          \<and> text_joins_words c \<and> starts_with_first_word c"
    using T h2 by blast
  have a3: "\<exists>c. whisper_segment_cue (0, text_segment 3 6 (ascii ''one two three'')) = Inr c
          \<and> text_joins_words c \<and> starts_with_first_word c"
    using T h2 by blast
  have a4: "starts_with_first_word (whisper_cpp_cue (0, spaced_segment))"
    using T h3 by blast
  have a5: "starts_with_first_word (demo_cue (0, ascii ''one two three''))"
    using T h4 by blast
  have a6: "c_end (demo_cue (0, ascii ''one two three'')) = Num 3"
    using T by simp
  show ?thesis
    by (intro conjI a1 a2 a3 a4 a5 a6 h4 h1 [THEN conjunct1] h1 [THEN conjunct2]
        h2 [THEN conjunct1] h2 [THEN conjunct2] h3 [THEN conjunct1]
        h3 [THEN conjunct2, THEN conjunct1] h3 [THEN conjunct2, THEN conjunct2])
qed

end
